theory Spec2Isabelle
  imports Main
begin

section \<open>Shared types (types/index.ts)\<close>

text \<open>
  Every \<^verbatim>\<open>throw\<close> of the source is a value: \<open>Error msg\<close> is a JavaScript
  \<^verbatim>\<open>Error\<close> with that message (raised by the authentication code or by a provider),
  \<open>Neo4jError\<close> is the rejection of one \<^verbatim>\<open>session.run\<close> round-trip by the driver.
\<close>

datatype error = Error string | Neo4jError

datatype session_type = oauth | apikey

text \<open>
  \<^verbatim>\<open>AuthSession\<close>. The fields \<^verbatim>\<open>id\<close>, \<^verbatim>\<open>type\<close> and \<^verbatim>\<open>name\<close> carry the prefix
  \<open>s_\<close>, since the entity record below has a \<open>name\<close> and a \<open>type\<close> too. An optional
  field is an \<open>option\<close>; a \<^verbatim>\<open>Date\<close> is its time value, a natural number.
\<close>

record AuthSession =
  s_id :: string
  s_type :: session_type
  userId :: "string option"
  email :: "string option"
  s_name :: "string option"
  provider :: "string option"
  scopes :: "string list option"
  createdAt :: nat
  expiresAt :: "nat option"

section \<open>The authentication chain (src/auth/manager.ts)\<close>

text \<open>
  Of the incoming request the manager itself reads two headers only, for its first log
  line. A header that is absent is \<open>None\<close>.
\<close>

record request =
  authorization :: "string option"
  x_api_key :: "string option"

text \<open>
  JavaScript truthiness of a value of type \<^verbatim>\<open>string | undefined\<close>: undefined and the
  empty string are falsy.
\<close>

fun truthy :: "string option \<Rightarrow> bool" where
  "truthy None = False"
| "truthy (Some s) = (s \<noteq> [])"

text \<open>
  The interface \<^verbatim>\<open>AuthProvider\<close> of \<^verbatim>\<open>auth/base.ts\<close>: the manager uses a provider's
  name, its predicate \<^verbatim>\<open>canHandle\<close> and its \<^verbatim>\<open>authenticate\<close>, whose promise either
  resolves to a session or rejects. The providers themselves are parameters of the model.
\<close>

record AuthProvider =
  p_name :: string
  p_canHandle :: "request \<Rightarrow> bool"
  p_authenticate :: "request \<Rightarrow> error + AuthSession"

text \<open>The class: its only field is the provider list.\<close>

record AuthManager =
  providers :: "AuthProvider list"

text \<open>One constructor per call of \<^verbatim>\<open>console.log/warn/error\<close> in the manager.\<close>

datatype log =
    OAuthInitialized
  | OAuthInitFailed error
  | ApiKeyInitialized nat
  | ApiKeyInitFailed error
  | NoProvidersInitialized
  | Attempting bool bool bool
  | AnonymousSession
  | Checking string
  | CanHandle string
  | AuthenticatedBy string
  | AuthenticationFailed string error
  | CannotHandle string

text \<open>
  The constructor. The classes \<^verbatim>\<open>OAuthProvider\<close> and \<^verbatim>\<open>ApiKeyProvider\<close> are not part
  of the sources at hand, so their constructors are the parameters \<open>newOAuth\<close> and
  \<open>newApiKey\<close>; a constructor that throws returns \<open>Inl\<close>. The two \<^verbatim>\<open>try\<close> blocks push the
  provider on success and only warn on failure.
\<close>

definition AuthManager_new ::
  "(string \<Rightarrow> string option \<Rightarrow> error + AuthProvider) \<Rightarrow> (string list \<Rightarrow> error + AuthProvider) \<Rightarrow>
   string option \<Rightarrow> string option \<Rightarrow> string list option \<Rightarrow> AuthManager \<times> log list" where
  "AuthManager_new newOAuth newApiKey descopeProjectId descopeManagementKey apiKeys =
    (let (ps1, l1) =
          (case descopeProjectId of
             None \<Rightarrow> ([], [])
           | Some pid \<Rightarrow>
               if pid \<noteq> [] then
                 (case newOAuth pid descopeManagementKey of
                    Inr oauthProvider \<Rightarrow> ([oauthProvider], [OAuthInitialized])
                  | Inl e \<Rightarrow> ([], [OAuthInitFailed e]))
               else ([], []));
         (ps2, l2) =
          (case apiKeys of
             None \<Rightarrow> (ps1, l1)
           | Some ks \<Rightarrow>
               if length ks > 0 then
                 (case newApiKey ks of
                    Inr apiKeyProvider \<Rightarrow> (ps1 @ [apiKeyProvider], l1 @ [ApiKeyInitialized (length ks)])
                  | Inl e \<Rightarrow> (ps1, l1 @ [ApiKeyInitFailed e]))
               else (ps1, l1))
     in (\<lparr>providers = ps2\<rparr>, if length ps2 = 0 then l2 @ [NoProvidersInitialized] else l2))"

text \<open>
  The loop \<^verbatim>\<open>for (const provider of this.providers)\<close> of \<^verbatim>\<open>authenticate\<close>, with the
  \<^verbatim>\<open>throw\<close> that follows it as the value of the empty list. The second component is
  what the loop writes to the console.
\<close>

fun try_providers :: "AuthProvider list \<Rightarrow> request \<Rightarrow> (error + AuthSession) \<times> log list" where
  "try_providers [] req =
     (Inl (Error ''Authentication failed: No valid credentials provided''), [])"
| "try_providers (p # ps) req =
     (if p_canHandle p req then
        (case p_authenticate p req of
           Inr session \<Rightarrow>
             (Inr session, [Checking (p_name p), CanHandle (p_name p), AuthenticatedBy (p_name p)])
         | Inl e \<Rightarrow>
             (let (r, l) = try_providers ps req
              in (r, [Checking (p_name p), CanHandle (p_name p), AuthenticationFailed (p_name p) e] @ l)))
      else
        (let (r, l) = try_providers ps req
         in (r, [Checking (p_name p), CannotHandle (p_name p)] @ l)))"

text \<open>The session of the branch \<^verbatim>\<open>this.providers.length === 0\<close>; \<open>now\<close> is \<^verbatim>\<open>new Date()\<close>.\<close>

definition anonymous_session :: "nat \<Rightarrow> AuthSession" where
  "anonymous_session now =
     \<lparr>s_id = ''no-auth'', s_type = oauth, userId = Some ''anonymous'', email = None,
      s_name = Some ''Anonymous User'', provider = Some ''none'',
      scopes = Some [''read'', ''write''], createdAt = now, expiresAt = None\<rparr>"

definition authenticate :: "AuthManager \<Rightarrow> request \<Rightarrow> nat \<Rightarrow> (error + AuthSession) \<times> log list" where
  "authenticate m req now =
     (let l0 = [Attempting (length (providers m) > 0) (truthy (authorization req)) (truthy (x_api_key req))]
      in if length (providers m) = 0 then (Inr (anonymous_session now), l0 @ [AnonymousSession])
         else (let (r, l) = try_providers (providers m) req in (r, l0 @ l)))"

text \<open>The providers the loop reached, in the order of its \<open>Checking\<close> lines.\<close>

fun consulted :: "log list \<Rightarrow> string list" where
  "consulted [] = []"
| "consulted (Checking n # l) = n # consulted l"
| "consulted (_ # l) = consulted l"

text \<open>
  Modelled from the spec: the two provider variants (\<^verbatim>\<open>auth/oauth.ts\<close>, \<^verbatim>\<open>auth/apikey.ts\<close>)
  are missing from the sources. Following section 4.2, the bearer provider claims a request
  whose \<^verbatim>\<open>Authorization\<close> header starts with \<^verbatim>\<open>Bearer\<close> and asks a token-introspection
  backend, a parameter here; the key provider claims a request with an \<^verbatim>\<open>x-api-key\<close>
  header and looks the key up in its allowlist. They serve as concrete providers in the
  examples below; no statement about the manager depends on them.
\<close>

definition OAuthProvider :: "(string \<Rightarrow> error + AuthSession) \<Rightarrow> AuthProvider" where
  "OAuthProvider introspect =
     \<lparr>p_name = ''oauth'',
      p_canHandle = (\<lambda>req. case authorization req of None \<Rightarrow> False | Some a \<Rightarrow> take 7 a = ''Bearer ''),
      p_authenticate = (\<lambda>req. case authorization req of
                                None \<Rightarrow> Inl (Error ''No bearer token'')
                              | Some a \<Rightarrow> introspect (drop 7 a))\<rparr>"

definition ApiKeyProvider :: "string list \<Rightarrow> nat \<Rightarrow> AuthProvider" where
  "ApiKeyProvider keys now =
     \<lparr>p_name = ''apikey'',
      p_canHandle = (\<lambda>req. truthy (x_api_key req)),
      p_authenticate = (\<lambda>req. case x_api_key req of
                                None \<Rightarrow> Inl (Error ''No API key'')
                              | Some k \<Rightarrow>
                                  if k \<in> set keys then
                                    Inr \<lparr>s_id = k, s_type = apikey, userId = None, email = None,
                                         s_name = None, provider = Some ''apikey'',
                                         scopes = Some [''read'', ''write''], createdAt = now,
                                         expiresAt = None\<rparr>
                                  else Inl (Error ''Invalid API key''))\<rparr>"

text \<open>A backend that knows no token.\<close>

definition no_token :: "string \<Rightarrow> error + AuthSession" where
  "no_token t = Inl (Error ''Invalid token'')"

section \<open>The graph store (neo4j/memory.ts)\<close>

subsection \<open>The records of types/index.ts\<close>

record Entity =
  name :: string
  type :: string
  observations :: "string list"

record Relation =
  source :: string
  target :: string
  relationType :: string

record ObservationAddition =
  entityName :: string
  contents :: "string list"

text \<open>\<^verbatim>\<open>ObservationDeletion\<close>; its fields \<^verbatim>\<open>entityName\<close> and \<^verbatim>\<open>observations\<close> carry the prefix \<open>d_\<close>.\<close>

record ObservationDeletion =
  d_entityName :: string
  d_observations :: "string list"

text \<open>
  What \<^verbatim>\<open>loadGraph\<close> puts into the \<^verbatim>\<open>entities\<close> of its result: TypeScript calls it an
  \<^verbatim>\<open>Entity\<close>, but the \<^verbatim>\<open>type\<close> is copied from the node as it is and is \<^verbatim>\<open>null\<close> for a
  node without that property.
\<close>

record LoadedEntity =
  l_name :: string
  l_type :: "string option"
  l_observations :: "string list"

record KnowledgeGraph =
  entities :: "LoadedEntity list"
  relations :: "Relation list"

subsection \<open>The backing store\<close>

text \<open>
  The database is a property graph. A node has an identity, a set of labels (a list without
  order of interest) and the three properties the program reads and writes, each of which
  may be absent. An edge has a start node, a type and an end node; two equal elements of
  \<open>edges\<close> are two parallel edges.
\<close>

record node =
  node_id :: nat
  labels :: "string list"
  n_name :: "string option"
  n_type :: "string option"
  n_observations :: "string list option"

record edge =
  startNode :: nat
  etype :: string
  endNode :: nat

record graph =
  nodes :: "node list"
  edges :: "edge list"

text \<open>Node identities are unique.\<close>

definition wf_graph :: "graph \<Rightarrow> bool" where
  "wf_graph g = distinct (map node_id (nodes g))"

text \<open>
  The state of the store as the program sees it: the graph, and what the backend will
  answer to the round-trips to come. \<open>faults\<close> holds one flag for each future
  \<^verbatim>\<open>session.run\<close>, \<open>True\<close> when that round-trip is rejected; past the end of the list
  every round-trip succeeds. Each \<^verbatim>\<open>session.run\<close> is one auto-commit transaction: it
  either happens as a whole or, rejected, leaves the graph as it was.
\<close>

record db =
  graph :: graph
  faults :: "bool list"

definition session_run :: "(graph \<Rightarrow> graph \<times> 'r) \<Rightarrow> db \<Rightarrow> (error + 'r) \<times> db" where
  "session_run q d =
     (case faults d of
        [] \<Rightarrow> (let (g, r) = q (graph d) in (Inr r, \<lparr>graph = g, faults = []\<rparr>))
      | f # fs \<Rightarrow>
          if f then (Inl Neo4jError, \<lparr>graph = graph d, faults = fs\<rparr>)
          else (let (g, r) = q (graph d) in (Inr r, \<lparr>graph = g, faults = fs\<rparr>)))"

text \<open>The next round-trip will not be rejected.\<close>

definition next_ok :: "db \<Rightarrow> bool" where
  "next_ok d = (case faults d of [] \<Rightarrow> True | f # fs \<Rightarrow> \<not> f)"

subsection \<open>The queries\<close>

text \<open>
  Each query is a function from the graph to the graph after it and the records it
  returns. A query is read clause by clause, as Cypher defines it: a clause takes the
  table of rows of the clause before it and is done with all of them before the next clause
  starts; an updating clause goes through the rows in order.

  The query texts are template literals in which both the backtick and the dollar sign are
  escaped ( \<^verbatim>\<open>e:\`\${entity.type}\`\<close>, \<^verbatim>\<open>[r:\`\${relationType}\`]\<close> ). An escaped dollar
  sign does not start a substitution, so the text sent to the store holds the back-quoted
  identifiers \<^verbatim>\<open>${entity.type}\<close> and \<^verbatim>\<open>${relationType}\<close> themselves: these fixed strings
  are the label and the edge type of the queries, and the parameter \<^verbatim>\<open>relationType\<close>
  passed along with the text is referred to by no clause.
\<close>

definition entity_type_label :: string where
  "entity_type_label = ''${entity.type}''"

definition relationType_literal :: string where
  "relationType_literal = ''${relationType}''"

text \<open>The pattern \<^verbatim>\<open>(:Memory { name: nm })\<close>.\<close>

definition is_memory :: "string \<Rightarrow> node \<Rightarrow> bool" where
  "is_memory nm n = (''Memory'' \<in> set (labels n) \<and> n_name n = Some nm)"

definition entity_exists :: "graph \<Rightarrow> string \<Rightarrow> bool" where
  "entity_exists g nm = (\<exists>n \<in> set (nodes g). is_memory nm n)"

text \<open>The identities of the nodes a pattern \<^verbatim>\<open>(:Memory { name: nm })\<close> binds.\<close>

definition match_memory :: "graph \<Rightarrow> string \<Rightarrow> nat list" where
  "match_memory g nm = map node_id (filter (is_memory nm) (nodes g))"

text \<open>\<^verbatim>\<open>coalesce(e.observations, [])\<close>.\<close>

fun coalesce :: "string list option \<Rightarrow> string list" where
  "coalesce None = []"
| "coalesce (Some os) = os"

definition upd_node :: "nat \<Rightarrow> (node \<Rightarrow> node) \<Rightarrow> graph \<Rightarrow> graph" where
  "upd_node i f g = g\<lparr>nodes := map (\<lambda>n. if node_id n = i then f n else n) (nodes g)\<rparr>"

primrec max_id :: "node list \<Rightarrow> nat" where
  "max_id [] = 0"
| "max_id (n # ns) = max (node_id n) (max_id ns)"

definition add_label :: "string \<Rightarrow> string list \<Rightarrow> string list" where
  "add_label l ls = (if l \<in> set ls then ls else ls @ [l])"

text \<open>
  \<^verbatim>\<open>createEntities\<close>:
  \<^verbatim>\<open>UNWIND $entities as entity  MERGE (e:Memory { name: entity.name })
  SET e += entity, e:`${entity.type}`  RETURN e\<close>.
  \<open>MERGE\<close> creates a node for a row that matches none; a node it creates is seen by the
  rows after it. \<open>SET\<close> then writes, for each row, the three fields of the entity and the
  label into the nodes bound to \<open>e\<close>: these are the nodes that match the pattern of the
  row, since neither clause takes the label \<open>Memory\<close> or changes a name that matched. The
  program does not read the records returned.
\<close>

definition merge_entity :: "Entity \<Rightarrow> graph \<Rightarrow> graph" where
  "merge_entity e g =
     (if entity_exists g (name e) then g
      else g\<lparr>nodes := nodes g @
                [\<lparr>node_id = Suc (max_id (nodes g)), labels = [''Memory''], n_name = Some (name e),
                  n_type = None, n_observations = None\<rparr>]\<rparr>)"

definition set_entity :: "Entity \<Rightarrow> node \<Rightarrow> node" where
  "set_entity e n =
     n\<lparr>n_name := Some (name e), n_type := Some (type e),
       n_observations := Some (observations e),
       labels := add_label entity_type_label (labels n)\<rparr>"

definition set_entity_row :: "Entity \<Rightarrow> graph \<Rightarrow> graph" where
  "set_entity_row e g =
     g\<lparr>nodes := map (\<lambda>n. if is_memory (name e) n then set_entity e n else n) (nodes g)\<rparr>"

definition q_createEntities :: "Entity list \<Rightarrow> graph \<Rightarrow> graph \<times> unit" where
  "q_createEntities es g = (fold set_entity_row es (fold merge_entity es g), ())"

text \<open>
  \<^verbatim>\<open>createRelations\<close>, the query of one relation:
  \<^verbatim>\<open>MATCH (from:Memory { name: $source })  MATCH (to:Memory { name: $target })
  MERGE (from)-[r:`${relationType}`]->(to)  RETURN r\<close>.
\<close>

definition merge_edge :: "nat \<times> nat \<Rightarrow> graph \<Rightarrow> graph" where
  "merge_edge ft g =
     (let e = \<lparr>startNode = fst ft, etype = relationType_literal, endNode = snd ft\<rparr>
      in if e \<in> set (edges g) then g else g\<lparr>edges := edges g @ [e]\<rparr>)"

definition q_createRelation :: "Relation \<Rightarrow> graph \<Rightarrow> graph \<times> unit" where
  "q_createRelation r g =
     (fold merge_edge
        (concat (map (\<lambda>f. map (\<lambda>t. (f, t)) (match_memory g (target r))) (match_memory g (source r))))
        g, ())"

text \<open>
  \<^verbatim>\<open>addObservations\<close>:
  \<^verbatim>\<open>UNWIND $observations as obs  MATCH (e:Memory { name: obs.entityName })
  WITH e, [o in obs.contents WHERE NOT o IN coalesce(e.observations, [])] as new
  SET e.observations = coalesce(e.observations, []) + new  RETURN e.name as name, new\<close>.
  \<open>WITH\<close> computes \<open>new\<close> for every row from the graph as the query found it; \<open>SET\<close> then
  appends, row after row. The name returned is the name the row matched.
\<close>

definition add_rows :: "ObservationAddition list \<Rightarrow> graph \<Rightarrow> (nat \<times> string \<times> string list) list" where
  "add_rows os g =
     concat (map (\<lambda>obs.
        map (\<lambda>e. (node_id e, entityName obs,
                   filter (\<lambda>x. x \<notin> set (coalesce (n_observations e))) (contents obs)))
            (filter (is_memory (entityName obs)) (nodes g))) os)"

definition set_added :: "nat \<times> string \<times> string list \<Rightarrow> graph \<Rightarrow> graph" where
  "set_added row g =
     upd_node (fst row)
       (\<lambda>n. n\<lparr>n_observations := Some (coalesce (n_observations n) @ snd (snd row))\<rparr>) g"

definition q_addObservations ::
  "ObservationAddition list \<Rightarrow> graph \<Rightarrow> graph \<times> (string \<times> string list) list" where
  "q_addObservations os g = (fold set_added (add_rows os g) g, map snd (add_rows os g))"

text \<open>
  \<^verbatim>\<open>deleteEntities\<close>:
  \<^verbatim>\<open>UNWIND $entities as name  MATCH (e:Memory { name: name })  DETACH DELETE e\<close>.
\<close>

definition detach_delete :: "nat \<Rightarrow> graph \<Rightarrow> graph" where
  "detach_delete i g =
     \<lparr>nodes = filter (\<lambda>n. node_id n \<noteq> i) (nodes g),
      edges = filter (\<lambda>e. startNode e \<noteq> i \<and> endNode e \<noteq> i) (edges g)\<rparr>"

definition q_deleteEntities :: "string list \<Rightarrow> graph \<Rightarrow> graph \<times> unit" where
  "q_deleteEntities entityNames g =
     (fold detach_delete (concat (map (match_memory g) entityNames)) g, ())"

text \<open>
  \<^verbatim>\<open>deleteObservations\<close>:
  \<^verbatim>\<open>UNWIND $deletions as d  MATCH (e:Memory { name: d.entityName })
  SET e.observations = [o in coalesce(e.observations, []) WHERE NOT o IN d.observations]\<close>.
\<close>

definition set_removed :: "nat \<times> string list \<Rightarrow> graph \<Rightarrow> graph" where
  "set_removed row g =
     upd_node (fst row)
       (\<lambda>n. n\<lparr>n_observations :=
                 Some (filter (\<lambda>x. x \<notin> set (snd row)) (coalesce (n_observations n)))\<rparr>) g"

definition q_deleteObservations :: "ObservationDeletion list \<Rightarrow> graph \<Rightarrow> graph \<times> unit" where
  "q_deleteObservations deletions g =
     (fold set_removed
        (concat (map (\<lambda>d. map (\<lambda>i. (i, d_observations d)) (match_memory g (d_entityName d))) deletions))
        g, ())"

text \<open>
  \<^verbatim>\<open>deleteRelations\<close>, the query of one relation:
  \<^verbatim>\<open>MATCH (source:Memory { name: $source })-[r:`${relationType}`]->(target:Memory { name: $target })
  DELETE r\<close>.
\<close>

definition q_deleteRelation :: "Relation \<Rightarrow> graph \<Rightarrow> graph \<times> unit" where
  "q_deleteRelation r g =
     (g\<lparr>edges := filter (\<lambda>e. \<not> (etype e = relationType_literal \<and>
                                   startNode e \<in> set (match_memory g (source r)) \<and>
                                   endNode e \<in> set (match_memory g (target r)))) (edges g)\<rparr>, ())"

text \<open>
  \<^verbatim>\<open>loadGraph\<close>:
  \<^verbatim>\<open>CALL db.index.fulltext.queryNodes('search', $filter) YIELD node as entity, score
  OPTIONAL MATCH (entity)-[r]-(other)
  RETURN collect(distinct {name: entity.name, type: entity.type, observations: entity.observations}) as nodes,
  collect(distinct {source: startNode(r).name, target: endNode(r).name, relationType: type(r)}) as relations\<close>.
  The full-text index belongs to the store: which nodes a filter expression selects is the
  parameter \<open>fulltext\<close>. The index \<^verbatim>\<open>search\<close> is declared on the nodes labelled
  \<open>Memory\<close>, so only these are candidates. A selected node without an edge gives one row
  in which \<open>r\<close> is null; the aggregation returns exactly one record.
\<close>

record node_map =
  m_name :: "string option"
  m_type :: "string option"
  m_observations :: "string list option"

record rel_map =
  m_source :: "string option"
  m_target :: "string option"
  m_relationType :: "string option"

text \<open>\<^verbatim>\<open>startNode(r).name\<close>, \<^verbatim>\<open>endNode(r).name\<close>: the name of the node with an identity.\<close>

definition name_of :: "graph \<Rightarrow> nat \<Rightarrow> string option" where
  "name_of g i = (case find (\<lambda>n. node_id n = i) (nodes g) of None \<Rightarrow> None | Some n \<Rightarrow> n_name n)"

definition rel_of :: "graph \<Rightarrow> edge option \<Rightarrow> rel_map" where
  "rel_of g r =
     (case r of
        None \<Rightarrow> \<lparr>m_source = None, m_target = None, m_relationType = None\<rparr>
      | Some e \<Rightarrow> \<lparr>m_source = name_of g (startNode e), m_target = name_of g (endNode e),
                   m_relationType = Some (etype e)\<rparr>)"

text \<open>\<^verbatim>\<open>OPTIONAL MATCH (entity)-[r]-(other)\<close>: the edges at a node, in either direction.\<close>

definition optional_match :: "graph \<Rightarrow> node \<Rightarrow> edge option list" where
  "optional_match g n =
     (let rs = filter (\<lambda>e. startNode e = node_id n \<or> endNode e = node_id n) (edges g)
      in if rs = [] then [None] else map Some rs)"

text \<open>\<^verbatim>\<open>collect(distinct ...)\<close>: each value once, at its first occurrence.\<close>

definition collect_distinct :: "'a list \<Rightarrow> 'a list" where
  "collect_distinct xs = rev (remdups (rev xs))"

definition q_loadGraph ::
  "(string \<Rightarrow> node \<Rightarrow> bool) \<Rightarrow> string \<Rightarrow> graph \<Rightarrow> graph \<times> (node_map list \<times> rel_map list) list" where
  "q_loadGraph fulltext filterQuery g =
     (let rows = concat (map (\<lambda>entity. map (\<lambda>r. (entity, r)) (optional_match g entity))
                   (filter (\<lambda>n. ''Memory'' \<in> set (labels n) \<and> fulltext filterQuery n) (nodes g)))
      in (g, [(collect_distinct (map (\<lambda>row. \<lparr>m_name = n_name (fst row), m_type = n_type (fst row),
                                              m_observations = n_observations (fst row)\<rparr>) rows),
               collect_distinct (map (\<lambda>row. rel_of g (snd row)) rows))]))"

subsection \<open>The methods of \<^verbatim>\<open>Neo4jMemory\<close>\<close>

text \<open>
  Each method opens a session, runs its query or queries and closes the session in
  \<^verbatim>\<open>finally\<close>; an exception of \<^verbatim>\<open>session.run\<close> leaves the method as it is. A method
  returns its result or the error, and the state of the store after it.
\<close>

text \<open>
  \<^verbatim>\<open>nodes.filter(node => node.name).map(...)\<close> and \<^verbatim>\<open>rels.filter(rel => rel.source &&
  rel.target && rel.relationType).map(...)\<close>, for one element: the empty list when the filter
  drops it (null and the empty string are falsy), the mapped element otherwise.
\<close>

definition to_entity :: "node_map \<Rightarrow> LoadedEntity list" where
  "to_entity node =
     (case m_name node of
        None \<Rightarrow> []
      | Some nm \<Rightarrow>
          if nm \<noteq> [] then
            [\<lparr>l_name = nm, l_type = m_type node, l_observations = coalesce (m_observations node)\<rparr>]
          else [])"

definition to_relation :: "rel_map \<Rightarrow> Relation list" where
  "to_relation rel =
     (case (m_source rel, m_target rel, m_relationType rel) of
        (Some s, Some t, Some ty) \<Rightarrow>
          if s \<noteq> [] \<and> t \<noteq> [] \<and> ty \<noteq> [] then [\<lparr>source = s, target = t, relationType = ty\<rparr>] else []
      | _ \<Rightarrow> [])"

definition loadGraph :: "(string \<Rightarrow> node \<Rightarrow> bool) \<Rightarrow> string \<Rightarrow> db \<Rightarrow> (error + KnowledgeGraph) \<times> db" where
  "loadGraph fulltext filterQuery d =
     (case session_run (q_loadGraph fulltext filterQuery) d of
        (Inl e, d') \<Rightarrow> (Inl e, d')
      | (Inr records, d') \<Rightarrow>
          (case records of
             [] \<Rightarrow> (Inr \<lparr>entities = [], relations = []\<rparr>, d')
           | record # _ \<Rightarrow>
               (Inr \<lparr>entities = concat (map to_entity (fst record)),
                     relations = concat (map to_relation (snd record))\<rparr>, d')))"

definition createEntities :: "Entity list \<Rightarrow> db \<Rightarrow> (error + Entity list) \<times> db" where
  "createEntities es d =
     (case session_run (q_createEntities es) d of
        (Inl e, d') \<Rightarrow> (Inl e, d')
      | (Inr _, d') \<Rightarrow> (Inr es, d'))"

text \<open>
  The loop \<^verbatim>\<open>for (const relation of relations) { ... await session.run(...) }\<close> of
  \<^verbatim>\<open>createRelations\<close> and \<^verbatim>\<open>deleteRelations\<close>: one round-trip for each relation, in the
  order of the list; the first rejected round-trip ends the loop and the method.
\<close>

fun run_each :: "('a \<Rightarrow> graph \<Rightarrow> graph \<times> unit) \<Rightarrow> 'a list \<Rightarrow> db \<Rightarrow> (error + unit) \<times> db" where
  "run_each q [] d = (Inr (), d)"
| "run_each q (r # rs) d =
     (case session_run (q r) d of
        (Inl e, d') \<Rightarrow> (Inl e, d')
      | (Inr _, d') \<Rightarrow> run_each q rs d')"

definition createRelations :: "Relation list \<Rightarrow> db \<Rightarrow> (error + Relation list) \<times> db" where
  "createRelations rs d =
     (case run_each q_createRelation rs d of
        (Inl e, d') \<Rightarrow> (Inl e, d')
      | (Inr _, d') \<Rightarrow> (Inr rs, d'))"

record ObservationResult =
  r_entityName :: string
  addedObservations :: "string list"

definition addObservations :: "ObservationAddition list \<Rightarrow> db \<Rightarrow> (error + ObservationResult list) \<times> db" where
  "addObservations os d =
     (case session_run (q_addObservations os) d of
        (Inl e, d') \<Rightarrow> (Inl e, d')
      | (Inr records, d') \<Rightarrow>
          (Inr (map (\<lambda>record. \<lparr>r_entityName = fst record, addedObservations = snd record\<rparr>) records), d'))"

definition deleteEntities :: "string list \<Rightarrow> db \<Rightarrow> (error + unit) \<times> db" where
  "deleteEntities entityNames d = session_run (q_deleteEntities entityNames) d"

definition deleteObservations :: "ObservationDeletion list \<Rightarrow> db \<Rightarrow> (error + unit) \<times> db" where
  "deleteObservations deletions d = session_run (q_deleteObservations deletions) d"

definition deleteRelations :: "Relation list \<Rightarrow> db \<Rightarrow> (error + unit) \<times> db" where
  "deleteRelations rs d = run_each q_deleteRelation rs d"

definition readGraph :: "(string \<Rightarrow> node \<Rightarrow> bool) \<Rightarrow> db \<Rightarrow> (error + KnowledgeGraph) \<times> db" where
  "readGraph fulltext d = loadGraph fulltext ''*'' d"

subsection \<open>Notions used in the statements\<close>

text \<open>Both patterns of the \<open>MATCH\<close> clauses of \<^verbatim>\<open>createRelations\<close> bind a node.\<close>

definition endpoints_exist :: "graph \<Rightarrow> Relation \<Rightarrow> bool" where
  "endpoints_exist g r = (entity_exists g (source r) \<and> entity_exists g (target r))"

text \<open>
  What the \<open>SET\<close> clause of \<^verbatim>\<open>addObservations\<close> makes of a node, given all the rows of
  the clause: the \<open>new\<close> of the rows bound to the node, appended in the order of the rows.
\<close>

definition appended :: "(nat \<times> string \<times> string list) list \<Rightarrow> node \<Rightarrow> node" where
  "appended rows n =
     (if node_id n \<in> fst ` set rows
      then n\<lparr>n_observations := Some (coalesce (n_observations n) @
              concat (map (\<lambda>row. snd (snd row)) (filter (\<lambda>row. fst row = node_id n) rows)))\<rparr>
      else n)"

text \<open>
  A store for the examples: three entities as \<^verbatim>\<open>createEntities\<close> leaves them, and the
  edges given.
\<close>

definition memory_node :: "nat \<Rightarrow> string \<Rightarrow> string list \<Rightarrow> node" where
  "memory_node i nm os =
     \<lparr>node_id = i, labels = [''Memory'', ''${entity.type}''], n_name = Some nm,
      n_type = Some ''Person'', n_observations = Some os\<rparr>"

definition ex_graph :: "edge list \<Rightarrow> graph" where
  "ex_graph es =
     \<lparr>nodes = [memory_node 1 ''Alice'' [''x''], memory_node 2 ''Bob'' [], memory_node 3 ''Carol'' []],
      edges = es\<rparr>"

definition ex_relations :: "Relation list" where
  "ex_relations =
     [\<lparr>source = ''Alice'', target = ''Bob'', relationType = ''knows''\<rparr>,
      \<lparr>source = ''Bob'', target = ''Carol'', relationType = ''knows''\<rparr>,
      \<lparr>source = ''Alice'', target = ''Carol'', relationType = ''knows''\<rparr>]"

text \<open>No entity of the graph holds an observation twice.\<close>

definition obs_distinct :: "graph \<Rightarrow> bool" where
  "obs_distinct g = (\<forall>n \<in> set (nodes g). distinct (coalesce (n_observations n)))"

text \<open>The three methods that write observations, as operations on the store.\<close>

datatype op =
    CreateEntities "Entity list"
  | AddObservations "ObservationAddition list"
  | DeleteObservations "ObservationDeletion list"

fun apply_op :: "op \<Rightarrow> db \<Rightarrow> db" where
  "apply_op (CreateEntities es) d = snd (createEntities es d)"
| "apply_op (AddObservations os) d = snd (addObservations os d)"
| "apply_op (DeleteObservations ds) d = snd (deleteObservations ds d)"

text \<open>
  What a call writes anew. For \<^verbatim>\<open>createEntities\<close>, the observations a name ends with are
  those of the last entity of the batch with that name. For \<^verbatim>\<open>addObservations\<close>, \<open>new_for\<close>
  is what a node receives: of every pair that names it, in the order of the batch, the
  elements of \<open>contents\<close> the node does not hold.
\<close>

definition create_distinct :: "Entity list \<Rightarrow> bool" where
  "create_distinct es =
     (\<forall>e \<in> set es. distinct (observations (last (filter (\<lambda>e'. name e' = name e) es))))"

definition new_for :: "ObservationAddition list \<Rightarrow> node \<Rightarrow> string list" where
  "new_for os n =
     concat (map (\<lambda>obs. filter (\<lambda>x. x \<notin> set (coalesce (n_observations n))) (contents obs))
                 (filter (\<lambda>obs. is_memory (entityName obs) n) os))"

definition new_distinct :: "ObservationAddition list \<Rightarrow> graph \<Rightarrow> bool" where
  "new_distinct os g = (\<forall>n \<in> set (nodes g). distinct (new_for os n))"

text \<open>
  An operation writes no duplicate: when its round-trip is carried out, what it writes anew
  is free of duplicates. \<open>run_ok\<close> asks this of every operation of a sequence, each in the
  state it starts from; \<open>always_distinct\<close> says that no state the sequence passes through,
  the first and the last included, holds an observation twice in one entity.
\<close>

fun op_ok :: "op \<Rightarrow> db \<Rightarrow> bool" where
  "op_ok (CreateEntities es) d = (next_ok d \<longrightarrow> create_distinct es)"
| "op_ok (AddObservations os) d = (next_ok d \<longrightarrow> new_distinct os (graph d))"
| "op_ok (DeleteObservations ds) d = True"

fun run_ok :: "op list \<Rightarrow> db \<Rightarrow> bool" where
  "run_ok [] d = True"
| "run_ok (x # xs) d = (op_ok x d \<and> run_ok xs (apply_op x d))"

fun always_distinct :: "op list \<Rightarrow> db \<Rightarrow> bool" where
  "always_distinct [] d = obs_distinct (graph d)"
| "always_distinct (x # xs) d = (obs_distinct (graph d) \<and> always_distinct xs (apply_op x d))"

text \<open>
  Node by node, the observations after are the observations before followed by strings
  that were not among them.
\<close>

definition only_appends_new :: "graph \<Rightarrow> graph \<Rightarrow> bool" where
  "only_appends_new g g' =
     list_all2 (\<lambda>n n'. take (length (coalesce (n_observations n))) (coalesce (n_observations n')) =
                          coalesce (n_observations n) \<and>
                        (\<forall>x \<in> set (drop (length (coalesce (n_observations n))) (coalesce (n_observations n'))).
                            x \<notin> set (coalesce (n_observations n))))
       (nodes g) (nodes g')"

text \<open>What the rows of the \<open>SET\<close> clause of \<^verbatim>\<open>createEntities\<close> do to one node.\<close>

definition set_step :: "Entity \<Rightarrow> node \<Rightarrow> node" where
  "set_step e n = (if is_memory (name e) n then set_entity e n else n)"

text \<open>
  The examples of the specification: an empty store, two entities, two relations between
  them that differ in their \<^verbatim>\<open>relationType\<close> only, and a full-text index in which every
  filter expression selects every node.
\<close>

definition empty_db :: db where
  "empty_db = \<lparr>graph = \<lparr>nodes = [], edges = []\<rparr>, faults = []\<rparr>"

definition alice :: Entity where
  "alice = \<lparr>name = ''Alice'', type = ''Person'', observations = [''likes tea'']\<rparr>"

definition bob :: Entity where
  "bob = \<lparr>name = ''Bob'', type = ''Person'', observations = []\<rparr>"

definition knows :: Relation where
  "knows = \<lparr>source = ''Alice'', target = ''Bob'', relationType = ''knows''\<rparr>"

definition likes :: Relation where
  "likes = \<lparr>source = ''Alice'', target = ''Bob'', relationType = ''likes''\<rparr>"

definition match_all :: "string \<Rightarrow> node \<Rightarrow> bool" where
  "match_all q n = True"

section \<open>Properties of the authentication chain\<close>

lemma try_providers_skip:
  assumes "\<forall>q \<in> set ps1. \<not> p_canHandle q req \<or> (\<exists>e. p_authenticate q req = Inl e)"
  shows "fst (try_providers (ps1 @ ps) req) = fst (try_providers ps req)"
    and "consulted (snd (try_providers (ps1 @ ps) req)) =
         map p_name ps1 @ consulted (snd (try_providers ps req))"
  using assms
  by (induction ps1) (auto split: prod.splits sum.splits)

lemma consulted_append: "consulted (l1 @ l2) = consulted l1 @ consulted l2"
  by (induction l1 rule: consulted.induct) auto

text \<open>
  C4. With no provider configured, \<open>authenticate\<close> returns, for every request, the
  anonymous session: type \<open>oauth\<close>, user id \<open>anonymous\<close>, scopes \<open>read\<close> and \<open>write\<close>. It
  returns a value (\<open>Inr\<close>), it does not throw (\<open>Inl\<close>).
\<close>

theorem authenticate_no_providers:
  "fst (authenticate \<lparr>providers = []\<rparr> req now) =
     Inr \<lparr>s_id = ''no-auth'', s_type = oauth, userId = Some ''anonymous'', email = None,
          s_name = Some ''Anonymous User'', provider = Some ''none'',
          scopes = Some [''read'', ''write''], createdAt = now, expiresAt = None\<rparr>"
  by (simp add: authenticate_def anonymous_session_def)

text \<open>
  C3. Providers are tried in registration order. When every provider registered before \<open>p\<close>
  either does not claim the request or claims it and fails, and \<open>p\<close> claims it and
  succeeds with session \<open>s\<close>, the manager returns \<open>s\<close>; the providers it consulted are
  those before \<open>p\<close>, in order, and \<open>p\<close>: none of the providers registered after \<open>p\<close>.
  A failing provider therefore does not reject the request.
\<close>

theorem authenticate_first_success:
  assumes "providers m = ps1 @ p # ps2"
    and "\<forall>q \<in> set ps1. \<not> p_canHandle q req \<or> (\<exists>e. p_authenticate q req = Inl e)"
    and "p_canHandle p req"
    and "p_authenticate p req = Inr s"
  shows "fst (authenticate m req now) = Inr s \<and>
         consulted (snd (authenticate m req now)) = map p_name ps1 @ [p_name p]"
proof -
  have step: "try_providers (p # ps2) req =
        (Inr s, [Checking (p_name p), CanHandle (p_name p), AuthenticatedBy (p_name p)])"
    using assms(3,4) by simp
  have r: "fst (try_providers (ps1 @ p # ps2) req) = Inr s"
    using try_providers_skip(1)[OF assms(2), of "p # ps2"] step by simp
  have c: "consulted (snd (try_providers (ps1 @ p # ps2) req)) = map p_name ps1 @ [p_name p]"
    using try_providers_skip(2)[OF assms(2), of "p # ps2"] step by simp
  show ?thesis
    using r c assms(1) by (auto simp: authenticate_def split: prod.splits)
qed

text \<open>
  The example of the specification: a bearer provider registered before a key provider, a
  request with a bearer token the backend rejects and a key of the allowlist. The key
  provider's session is returned, after both providers were consulted in order.
\<close>

theorem authenticate_first_success_witness:
  "fst (authenticate \<lparr>providers = [OAuthProvider no_token, ApiKeyProvider [''k1''] 5]\<rparr>
          \<lparr>authorization = Some ''Bearer bad'', x_api_key = Some ''k1''\<rparr> 7) =
     Inr \<lparr>s_id = ''k1'', s_type = apikey, userId = None, email = None, s_name = None,
          provider = Some ''apikey'', scopes = Some [''read'', ''write''], createdAt = 5,
          expiresAt = None\<rparr> \<and>
   consulted (snd (authenticate \<lparr>providers = [OAuthProvider no_token, ApiKeyProvider [''k1''] 5]\<rparr>
          \<lparr>authorization = Some ''Bearer bad'', x_api_key = Some ''k1''\<rparr> 7)) = [''oauth'', ''apikey'']"
  using authenticate_first_success
    [of "\<lparr>providers = [OAuthProvider no_token, ApiKeyProvider [''k1''] 5]\<rparr>"
        "[OAuthProvider no_token]" "ApiKeyProvider [''k1''] 5" "[]"
        "\<lparr>authorization = Some ''Bearer bad'', x_api_key = Some ''k1''\<rparr>"
        "\<lparr>s_id = ''k1'', s_type = apikey, userId = None, email = None, s_name = None,
          provider = Some ''apikey'', scopes = Some [''read'', ''write''], createdAt = 5,
          expiresAt = None\<rparr>" 7]
  by (simp add: OAuthProvider_def ApiKeyProvider_def no_token_def)

text \<open>
  C10. A provider whose constructor throws is skipped and construction goes on: the failure
  is written to the log, and a provider whose constructor returns is kept all the same (the
  manager and the log are then exactly the provider kept and the two log lines). When the
  constructor of every configured provider throws, the manager built has no provider, says
  so in its log, and answers every request with the anonymous session, although credentials
  were configured.
\<close>

theorem AuthManager_new_skips_failed:
  "(\<forall>pid e. descopeProjectId = Some pid \<and> pid \<noteq> [] \<and> newOAuth pid descopeManagementKey = Inl e \<longrightarrow>
      OAuthInitFailed e \<in> set (snd (AuthManager_new newOAuth newApiKey descopeProjectId descopeManagementKey apiKeys)) \<and>
      (\<forall>ks p. apiKeys = Some ks \<and> ks \<noteq> [] \<and> newApiKey ks = Inr p \<longrightarrow>
         AuthManager_new newOAuth newApiKey descopeProjectId descopeManagementKey apiKeys =
           (\<lparr>providers = [p]\<rparr>, [OAuthInitFailed e, ApiKeyInitialized (length ks)]))) \<and>
   (\<forall>ks e. apiKeys = Some ks \<and> ks \<noteq> [] \<and> newApiKey ks = Inl e \<longrightarrow>
      ApiKeyInitFailed e \<in> set (snd (AuthManager_new newOAuth newApiKey descopeProjectId descopeManagementKey apiKeys)) \<and>
      (\<forall>pid p. descopeProjectId = Some pid \<and> pid \<noteq> [] \<and> newOAuth pid descopeManagementKey = Inr p \<longrightarrow>
         AuthManager_new newOAuth newApiKey descopeProjectId descopeManagementKey apiKeys =
           (\<lparr>providers = [p]\<rparr>, [OAuthInitialized, ApiKeyInitFailed e]))) \<and>
   ((truthy descopeProjectId \<longrightarrow> (\<exists>e. newOAuth (the descopeProjectId) descopeManagementKey = Inl e)) \<and>
    (\<forall>ks. apiKeys = Some ks \<and> length ks > 0 \<longrightarrow> (\<exists>e. newApiKey ks = Inl e)) \<longrightarrow>
      providers (fst (AuthManager_new newOAuth newApiKey descopeProjectId descopeManagementKey apiKeys)) = [] \<and>
      NoProvidersInitialized \<in> set (snd (AuthManager_new newOAuth newApiKey descopeProjectId descopeManagementKey apiKeys)) \<and>
      (\<forall>req now. fst (authenticate
             (fst (AuthManager_new newOAuth newApiKey descopeProjectId descopeManagementKey apiKeys)) req now) =
            Inr (anonymous_session now)))"
proof -
  let ?M = "AuthManager_new newOAuth newApiKey descopeProjectId descopeManagementKey apiKeys"
  have one: "OAuthInitFailed e \<in> set (snd ?M) \<and>
      (\<forall>ks p. apiKeys = Some ks \<and> ks \<noteq> [] \<and> newApiKey ks = Inr p \<longrightarrow>
         ?M = (\<lparr>providers = [p]\<rparr>, [OAuthInitFailed e, ApiKeyInitialized (length ks)]))"
    if "descopeProjectId = Some pid" "pid \<noteq> []" "newOAuth pid descopeManagementKey = Inl e" for pid e
    using that by (cases apiKeys) (auto simp: AuthManager_new_def Let_def split: sum.splits)
  have two: "ApiKeyInitFailed e \<in> set (snd ?M) \<and>
      (\<forall>pid p. descopeProjectId = Some pid \<and> pid \<noteq> [] \<and> newOAuth pid descopeManagementKey = Inr p \<longrightarrow>
         ?M = (\<lparr>providers = [p]\<rparr>, [OAuthInitialized, ApiKeyInitFailed e]))"
    if "apiKeys = Some ks" "ks \<noteq> []" "newApiKey ks = Inl e" for ks e
    using that by (cases descopeProjectId) (auto simp: AuthManager_new_def Let_def split: sum.splits)
  have three: "providers (fst ?M) = [] \<and> NoProvidersInitialized \<in> set (snd ?M) \<and>
      (\<forall>req now. fst (authenticate (fst ?M) req now) = Inr (anonymous_session now))"
    if a: "truthy descopeProjectId \<longrightarrow> (\<exists>e. newOAuth (the descopeProjectId) descopeManagementKey = Inl e)"
    and b: "\<forall>ks. apiKeys = Some ks \<and> length ks > 0 \<longrightarrow> (\<exists>e. newApiKey ks = Inl e)"
  proof -
    have e: "providers (fst ?M) = [] \<and> NoProvidersInitialized \<in> set (snd ?M)"
      using a b
      by (cases descopeProjectId; cases apiKeys)
         (auto simp: AuthManager_new_def Let_def split: sum.splits)
    then show ?thesis by (simp add: authenticate_def)
  qed
  show ?thesis using one two three by blast
qed

text \<open>
  Both kinds of credentials configured: the bearer constructor throwing and the key provider
  kept; the key constructor throwing and the bearer provider kept; both throwing, no provider,
  and a request without any credential authenticated as \<open>anonymous\<close>.
\<close>

theorem AuthManager_new_skips_failed_witness:
  "AuthManager_new (\<lambda>pid key. Inl (Error ''bad project'')) (\<lambda>ks. Inr (ApiKeyProvider ks 5))
       (Some ''P123'') None (Some [''k1'']) =
     (\<lparr>providers = [ApiKeyProvider [''k1''] 5]\<rparr>,
      [OAuthInitFailed (Error ''bad project''), ApiKeyInitialized 1]) \<and>
   AuthManager_new (\<lambda>pid key. Inr (OAuthProvider no_token)) (\<lambda>ks. Inl (Error ''bad keys''))
       (Some ''P123'') None (Some [''k1'']) =
     (\<lparr>providers = [OAuthProvider no_token]\<rparr>,
      [OAuthInitialized, ApiKeyInitFailed (Error ''bad keys'')]) \<and>
   OAuthInitFailed (Error ''bad project'') \<in> set (snd (AuthManager_new
       (\<lambda>pid key. Inl (Error ''bad project'')) (\<lambda>ks. Inl (Error ''bad keys''))
       (Some ''P123'') None (Some [''k1'']))) \<and>
   ApiKeyInitFailed (Error ''bad keys'') \<in> set (snd (AuthManager_new
       (\<lambda>pid key. Inl (Error ''bad project'')) (\<lambda>ks. Inl (Error ''bad keys''))
       (Some ''P123'') None (Some [''k1'']))) \<and>
   NoProvidersInitialized \<in> set (snd (AuthManager_new
       (\<lambda>pid key. Inl (Error ''bad project'')) (\<lambda>ks. Inl (Error ''bad keys''))
       (Some ''P123'') None (Some [''k1'']))) \<and>
   providers (fst (AuthManager_new (\<lambda>pid key. Inl (Error ''bad project'')) (\<lambda>ks. Inl (Error ''bad keys''))
       (Some ''P123'') None (Some [''k1'']))) = [] \<and>
   fst (authenticate (fst (AuthManager_new (\<lambda>pid key. Inl (Error ''bad project'')) (\<lambda>ks. Inl (Error ''bad keys''))
       (Some ''P123'') None (Some [''k1'']))) \<lparr>authorization = None, x_api_key = None\<rparr> 3) =
     Inr \<lparr>s_id = ''no-auth'', s_type = oauth, userId = Some ''anonymous'', email = None,
          s_name = Some ''Anonymous User'', provider = Some ''none'',
          scopes = Some [''read'', ''write''], createdAt = 3, expiresAt = None\<rparr>"
  using AuthManager_new_skips_failed
      [where descopeProjectId = "Some ''P123''" and descopeManagementKey = None
         and apiKeys = "Some [''k1'']" and newOAuth = "\<lambda>pid key. Inl (Error ''bad project'')"
         and newApiKey = "\<lambda>ks. Inr (ApiKeyProvider ks 5)"]
    AuthManager_new_skips_failed
      [where descopeProjectId = "Some ''P123''" and descopeManagementKey = None
         and apiKeys = "Some [''k1'']" and newOAuth = "\<lambda>pid key. Inr (OAuthProvider no_token)"
         and newApiKey = "\<lambda>ks. Inl (Error ''bad keys'')"]
    AuthManager_new_skips_failed
      [where descopeProjectId = "Some ''P123''" and descopeManagementKey = None
         and apiKeys = "Some [''k1'']" and newOAuth = "\<lambda>pid key. Inl (Error ''bad project'')"
         and newApiKey = "\<lambda>ks. Inl (Error ''bad keys'')"]
  by (simp add: anonymous_session_def)

section \<open>Properties of the graph store\<close>

subsection \<open>Round-trips\<close>

lemma session_run_ok:
  "next_ok d \<Longrightarrow> session_run q d = (Inr (snd (q (graph d))), \<lparr>graph = fst (q (graph d)), faults = tl (faults d)\<rparr>)"
  by (auto simp: session_run_def next_ok_def split: list.splits prod.splits)

lemma session_run_fault:
  "faults d = True # fs \<Longrightarrow> session_run q d = (Inl Neo4jError, \<lparr>graph = graph d, faults = fs\<rparr>)"
  by (simp add: session_run_def)

lemma run_each_fault:
  "faults d = replicate k False @ True # fs \<Longrightarrow> k < length rs \<Longrightarrow>
   run_each q rs d =
     (Inl Neo4jError, \<lparr>graph = fold (\<lambda>r g. fst (q r g)) (take k rs) (graph d), faults = fs\<rparr>)"
proof (induction rs arbitrary: k d)
  case Nil
  then show ?case by simp
next
  case (Cons r rs)
  show ?case
  proof (cases k)
    case 0
    with Cons.prems show ?thesis by (simp add: session_run_fault)
  next
    case (Suc j)
    let ?d' = "\<lparr>graph = fst (q r (graph d)), faults = replicate j False @ True # fs\<rparr>"
    have ok: "next_ok d" using Cons.prems Suc by (simp add: next_ok_def)
    have run: "session_run (q r) d = (Inr (snd (q r (graph d))), ?d')"
      using session_run_ok[OF ok, of "q r"] Cons.prems Suc by simp
    have "run_each q rs ?d' =
        (Inl Neo4jError, \<lparr>graph = fold (\<lambda>r g. fst (q r g)) (take j rs) (graph ?d'), faults = fs\<rparr>)"
      using Cons.IH[of ?d' j] Cons.prems Suc by simp
    then show ?thesis using run Suc by simp
  qed
qed

lemma run_each_ok:
  "\<forall>f \<in> set (take (length rs) (faults d)). \<not> f \<Longrightarrow>
   run_each q rs d =
     (Inr (), \<lparr>graph = fold (\<lambda>r g. fst (q r g)) rs (graph d), faults = drop (length rs) (faults d)\<rparr>)"
proof (induction rs arbitrary: d)
  case Nil
  then show ?case by simp
next
  case (Cons r rs)
  have ok: "next_ok d" using Cons.prems by (auto simp: next_ok_def split: list.splits)
  let ?d' = "\<lparr>graph = fst (q r (graph d)), faults = tl (faults d)\<rparr>"
  have "\<forall>f \<in> set (take (length rs) (faults ?d')). \<not> f"
    using Cons.prems by (cases "faults d") auto
  from Cons.IH[OF this] show ?case
    using session_run_ok[OF ok, of "q r"] by (simp add: drop_Suc)
qed

text \<open>
  C9. \<^verbatim>\<open>createRelations\<close> and \<^verbatim>\<open>deleteRelations\<close> send one query for each relation, in
  the order of the list. When the round-trips of the relations \<open>0..k-1\<close> succeed and that of
  relation \<open>k\<close> is rejected, the method ends with the error; the graph is the one the first
  \<open>k\<close> queries made, in order (nothing is rolled back), and exactly \<open>k + 1\<close> answers of
  the backend were used: the relations after \<open>k\<close> were not sent.
\<close>

theorem relations_partial_failure:
  assumes "faults d = replicate k False @ True # fs" and "k < length rs"
  shows "createRelations rs d =
           (Inl Neo4jError,
            \<lparr>graph = fold (\<lambda>r g. fst (q_createRelation r g)) (take k rs) (graph d), faults = fs\<rparr>) \<and>
         deleteRelations rs d =
           (Inl Neo4jError,
            \<lparr>graph = fold (\<lambda>r g. fst (q_deleteRelation r g)) (take k rs) (graph d), faults = fs\<rparr>)"
  using run_each_fault[OF assms] by (simp add: createRelations_def deleteRelations_def)

theorem relations_partial_failure_witness:
  "createRelations ex_relations \<lparr>graph = ex_graph [], faults = [False, True, False]\<rparr> =
     (Inl Neo4jError,
      \<lparr>graph = ex_graph [\<lparr>startNode = 1, etype = ''${relationType}'', endNode = 2\<rparr>], faults = [False]\<rparr>) \<and>
   deleteRelations ex_relations
      \<lparr>graph = ex_graph [\<lparr>startNode = 1, etype = ''${relationType}'', endNode = 2\<rparr>,
                          \<lparr>startNode = 2, etype = ''${relationType}'', endNode = 3\<rparr>],
       faults = [False, True, False]\<rparr> =
     (Inl Neo4jError,
      \<lparr>graph = ex_graph [\<lparr>startNode = 2, etype = ''${relationType}'', endNode = 3\<rparr>], faults = [False]\<rparr>)"
proof -
  let ?e12 = "\<lparr>startNode = 1, etype = ''${relationType}'', endNode = 2\<rparr>"
  let ?e23 = "\<lparr>startNode = 2, etype = ''${relationType}'', endNode = 3\<rparr>"
  let ?d1 = "\<lparr>graph = ex_graph [], faults = [False, True, False]\<rparr>"
  let ?d2 = "\<lparr>graph = ex_graph [?e12, ?e23], faults = [False, True, False]\<rparr>"
  have f1: "faults ?d1 = replicate (Suc 0) False @ True # [False]"
    and f2: "faults ?d2 = replicate (Suc 0) False @ True # [False]" by simp_all
  have k: "Suc 0 < length ex_relations" by (simp add: ex_relations_def)
  have c: "fold (\<lambda>r g. fst (q_createRelation r g)) (take (Suc 0) ex_relations) (graph ?d1) = ex_graph [?e12]"
    by code_simp
  have d: "fold (\<lambda>r g. fst (q_deleteRelation r g)) (take (Suc 0) ex_relations) (graph ?d2) = ex_graph [?e23]"
    by code_simp
  show ?thesis
    using relations_partial_failure[OF f1 k] relations_partial_failure[OF f2 k]
    by (simp only: c d)
qed

subsection \<open>Relations between entities that do not exist\<close>

lemma nodes_fold_merge_edge: "nodes (fold merge_edge rows g) = nodes g"
  by (induction rows arbitrary: g) (auto simp: merge_edge_def Let_def)

lemma nodes_q_createRelation: "nodes (fst (q_createRelation r g)) = nodes g"
  by (simp add: q_createRelation_def nodes_fold_merge_edge)

lemma match_memory_Nil: "\<not> entity_exists g nm \<Longrightarrow> match_memory g nm = []"
  by (auto simp: entity_exists_def match_memory_def filter_empty_conv)

lemma entity_exists_cong: "nodes g = nodes g' \<Longrightarrow> entity_exists g nm = entity_exists g' nm"
  by (simp add: entity_exists_def)

lemma concat_map_Nil: "concat (map (\<lambda>f. []) xs) = []"
  by (induction xs) auto

lemma q_createRelation_missing:
  "\<not> entity_exists g (source r) \<or> \<not> entity_exists g (target r) \<Longrightarrow> q_createRelation r g = (g, ())"
  by (auto simp: q_createRelation_def match_memory_Nil concat_map_Nil)

lemma fold_createRelation_filter:
  "nodes g = nodes g0 \<Longrightarrow>
   fold (\<lambda>r g. fst (q_createRelation r g)) rs g =
   fold (\<lambda>r g. fst (q_createRelation r g)) (filter (endpoints_exist g0) rs) g"
proof (induction rs arbitrary: g)
  case Nil
  then show ?case by simp
next
  case (Cons r rs)
  have n: "nodes (fst (q_createRelation r g)) = nodes g0"
    using Cons.prems by (simp add: nodes_q_createRelation)
  show ?case
  proof (cases "endpoints_exist g0 r")
    case True
    then show ?thesis using Cons.IH[OF n] by simp
  next
    case False
    then have "\<not> entity_exists g (source r) \<or> \<not> entity_exists g (target r)"
      using entity_exists_cong[OF Cons.prems] by (auto simp: endpoints_exist_def)
    then have "q_createRelation r g = (g, ())" by (rule q_createRelation_missing)
    then show ?thesis using False Cons.IH[OF Cons.prems] by simp
  qed
qed

lemma nodes_fold_createRelation:
  "nodes (fold (\<lambda>r g. fst (q_createRelation r g)) rs g) = nodes g"
  by (induction rs arbitrary: g) (auto simp: nodes_q_createRelation)

text \<open>
  C7. With no round-trip rejected, \<^verbatim>\<open>createRelations\<close> returns its input and never
  creates a node. A relation whose source or target names no entity of the graph writes
  nothing: the graph after the batch is the graph after the batch without these relations,
  and when every relation of the batch lacks an endpoint the graph is unchanged.
\<close>

theorem createRelations_missing_endpoint:
  assumes "\<forall>f \<in> set (take (length rs) (faults d)). \<not> f"
  shows "fst (createRelations rs d) = Inr rs \<and>
         nodes (graph (snd (createRelations rs d))) = nodes (graph d) \<and>
         graph (snd (createRelations rs d)) =
           graph (snd (createRelations (filter (endpoints_exist (graph d)) rs) d)) \<and>
         ((\<forall>r \<in> set rs. \<not> entity_exists (graph d) (source r) \<or> \<not> entity_exists (graph d) (target r)) \<longrightarrow>
            graph (snd (createRelations rs d)) = graph d)"
proof -
  let ?step = "\<lambda>r g. fst (q_createRelation r g)"
  let ?rs' = "filter (endpoints_exist (graph d)) rs"
  have run: "run_each q_createRelation rs d =
      (Inr (), \<lparr>graph = fold ?step rs (graph d), faults = drop (length rs) (faults d)\<rparr>)"
    using run_each_ok[OF assms] .
  have "set (take (length ?rs') (faults d)) \<subseteq> set (take (length rs) (faults d))"
    by (rule set_take_subset_set_take) simp
  then have "\<forall>f \<in> set (take (length ?rs') (faults d)). \<not> f"
    using assms by blast
  then have run': "run_each q_createRelation ?rs' d =
      (Inr (), \<lparr>graph = fold ?step ?rs' (graph d), faults = drop (length ?rs') (faults d)\<rparr>)"
    by (rule run_each_ok)
  have eq: "fold ?step rs (graph d) = fold ?step ?rs' (graph d)"
    by (rule fold_createRelation_filter) simp
  have none: "(\<forall>r \<in> set rs. \<not> entity_exists (graph d) (source r) \<or> \<not> entity_exists (graph d) (target r)) \<Longrightarrow>
      ?rs' = []"
    by (auto simp: filter_empty_conv endpoints_exist_def)
  show ?thesis
    using run run' eq none
    by (auto simp: createRelations_def nodes_fold_createRelation)
qed

theorem createRelations_missing_endpoint_witness:
  "fst (createRelations [\<lparr>source = ''Ghost1'', target = ''Ghost2'', relationType = ''knows''\<rparr>]
          \<lparr>graph = ex_graph [], faults = []\<rparr>) =
     Inr [\<lparr>source = ''Ghost1'', target = ''Ghost2'', relationType = ''knows''\<rparr>] \<and>
   graph (snd (createRelations [\<lparr>source = ''Ghost1'', target = ''Ghost2'', relationType = ''knows''\<rparr>]
          \<lparr>graph = ex_graph [], faults = []\<rparr>)) = ex_graph []"
proof -
  let ?rs = "[\<lparr>source = ''Ghost1'', target = ''Ghost2'', relationType = ''knows''\<rparr>]"
  let ?d = "\<lparr>graph = ex_graph [], faults = []\<rparr>"
  have h: "\<forall>f \<in> set (take (length ?rs) (faults ?d)). \<not> f" by simp
  have m: "\<forall>r \<in> set ?rs. \<not> entity_exists (graph ?d) (source r) \<or> \<not> entity_exists (graph ?d) (target r)"
    by code_simp
  have g: "graph ?d = ex_graph []" by simp
  note t = createRelations_missing_endpoint[OF h]
  have r: "fst (createRelations ?rs ?d) = Inr ?rs"
    by (rule t[THEN conjunct1])
  have u: "graph (snd (createRelations ?rs ?d)) = graph ?d"
    by (rule t[THEN conjunct2, THEN conjunct2, THEN conjunct2, THEN mp, OF m])
  show ?thesis
    using r u by simp
qed

subsection \<open>Deleting what does not exist\<close>

lemma fold_detach_delete:
  "fold detach_delete ids g =
     \<lparr>nodes = filter (\<lambda>n. node_id n \<notin> set ids) (nodes g),
      edges = filter (\<lambda>e. startNode e \<notin> set ids \<and> endNode e \<notin> set ids) (edges g)\<rparr>"
proof (induction ids arbitrary: g)
  case Nil
  then show ?case by simp
next
  case (Cons i ids)
  have "fold detach_delete (i # ids) g = fold detach_delete ids (detach_delete i g)"
    by simp
  also have "\<dots> = \<lparr>nodes = filter (\<lambda>n. node_id n \<notin> set ids) (nodes (detach_delete i g)),
      edges = filter (\<lambda>e. startNode e \<notin> set ids \<and> endNode e \<notin> set ids) (edges (detach_delete i g))\<rparr>"
    by (rule Cons.IH)
  also have "\<dots> = \<lparr>nodes = filter (\<lambda>n. node_id n \<notin> set (i # ids)) (nodes g),
      edges = filter (\<lambda>e. startNode e \<notin> set (i # ids) \<and> endNode e \<notin> set (i # ids)) (edges g)\<rparr>"
    by (auto simp: detach_delete_def intro: filter_cong)
  finally show ?case .
qed

lemma wf_same_id: "wf_graph g \<Longrightarrow> n \<in> set (nodes g) \<Longrightarrow> m \<in> set (nodes g) \<Longrightarrow> node_id n = node_id m \<Longrightarrow> n = m"
  unfolding wf_graph_def by (metis distinct_map inj_on_def)

lemma set_match_memory: "set (match_memory g nm) = node_id ` {n \<in> set (nodes g). is_memory nm n}"
  by (auto simp: match_memory_def)

lemma matched_iff:
  assumes "wf_graph g" and "n \<in> set (nodes g)"
  shows "node_id n \<in> set (concat (map (match_memory g) names)) \<longleftrightarrow> (\<exists>nm \<in> set names. is_memory nm n)"
proof
  assume "node_id n \<in> set (concat (map (match_memory g) names))"
  then obtain nm m where "nm \<in> set names" "m \<in> set (nodes g)" "is_memory nm m" "node_id m = node_id n"
    by (auto simp: set_match_memory)
  then show "\<exists>nm \<in> set names. is_memory nm n"
    using wf_same_id[OF assms(1) assms(2), of m] by auto
next
  assume "\<exists>nm \<in> set names. is_memory nm n"
  then show "node_id n \<in> set (concat (map (match_memory g) names))"
    using assms(2) by (auto simp: set_match_memory)
qed

lemma concat_match_none:
  "\<forall>x \<in> set xs. \<not> entity_exists g (f x) \<Longrightarrow> concat (map (\<lambda>x. map (h x) (match_memory g (f x))) xs) = []"
  by (induction xs) (auto simp: match_memory_Nil)

lemma concat_match_filter:
  "concat (map (\<lambda>x. map (h x) (match_memory g (f x))) xs) =
   concat (map (\<lambda>x. map (h x) (match_memory g (f x))) (filter (\<lambda>x. entity_exists g (f x)) xs))"
  by (induction xs) (auto simp: match_memory_Nil)

lemma graph_eq: "\<lparr>nodes = nodes g, edges = edges g\<rparr> = (g::graph)"
  by simp

text \<open>
  C8. With the round-trip not rejected, \<^verbatim>\<open>deleteEntities\<close> succeeds and removes exactly the
  nodes labelled \<open>Memory\<close> that carry one of the names, together with every edge that starts
  or ends at one of them; a name that matches no node contributes nothing. When none of the
  names exists the graph is unchanged, and so it is after \<^verbatim>\<open>deleteObservations\<close> when
  none of the entities named exists; in general \<^verbatim>\<open>deleteObservations\<close> does what it does
  without the pairs that name no entity.
\<close>

theorem delete_missing_noop:
  assumes "wf_graph (graph d)" and "next_ok d"
  shows "deleteEntities names d =
           (Inr (),
            \<lparr>graph =
               \<lparr>nodes = filter (\<lambda>n. \<not> (\<exists>nm \<in> set names. is_memory nm n)) (nodes (graph d)),
                edges = filter (\<lambda>e. startNode e \<notin> set (concat (map (match_memory (graph d)) names)) \<and>
                                     endNode e \<notin> set (concat (map (match_memory (graph d)) names)))
                          (edges (graph d))\<rparr>,
             faults = tl (faults d)\<rparr>) \<and>
         ((\<forall>nm \<in> set names. \<not> entity_exists (graph d) nm) \<longrightarrow>
            deleteEntities names d = (Inr (), \<lparr>graph = graph d, faults = tl (faults d)\<rparr>)) \<and>
         ((\<forall>x \<in> set deletions. \<not> entity_exists (graph d) (d_entityName x)) \<longrightarrow>
            deleteObservations deletions d = (Inr (), \<lparr>graph = graph d, faults = tl (faults d)\<rparr>)) \<and>
         deleteObservations deletions d =
           deleteObservations (filter (\<lambda>x. entity_exists (graph d) (d_entityName x)) deletions) d"
proof -
  let ?g = "graph d"
  let ?ids = "concat (map (match_memory ?g) names)"
  have nodes_eq: "filter (\<lambda>n. node_id n \<notin> set ?ids) (nodes ?g) =
                  filter (\<lambda>n. \<not> (\<exists>nm \<in> set names. is_memory nm n)) (nodes ?g)"
    by (rule filter_cong) (use matched_iff[OF assms(1)] in auto)
  have run: "deleteEntities names d =
      (Inr (), \<lparr>graph = fold detach_delete ?ids ?g, faults = tl (faults d)\<rparr>)"
    using session_run_ok[OF assms(2), of "q_deleteEntities names"]
    by (simp add: deleteEntities_def q_deleteEntities_def)
  have first: "deleteEntities names d =
           (Inr (),
            \<lparr>graph =
               \<lparr>nodes = filter (\<lambda>n. \<not> (\<exists>nm \<in> set names. is_memory nm n)) (nodes ?g),
                edges = filter (\<lambda>e. startNode e \<notin> set ?ids \<and> endNode e \<notin> set ?ids) (edges ?g)\<rparr>,
             faults = tl (faults d)\<rparr>)"
    using run nodes_eq by (simp add: fold_detach_delete)
  have second: "deleteEntities names d = (Inr (), \<lparr>graph = ?g, faults = tl (faults d)\<rparr>)"
    if "\<forall>nm \<in> set names. \<not> entity_exists ?g nm"
  proof -
    have "concat (map (\<lambda>x. map (\<lambda>i. i) (match_memory ?g x)) names) = []"
      using that by (rule concat_match_none)
    then have ids: "?ids = []" by simp
    show ?thesis unfolding run ids by simp
  qed
  have third: "deleteObservations deletions d = (Inr (), \<lparr>graph = ?g, faults = tl (faults d)\<rparr>)"
    if "\<forall>x \<in> set deletions. \<not> entity_exists ?g (d_entityName x)"
  proof -
    have rows: "concat (map (\<lambda>x. map (\<lambda>i. (i, d_observations x)) (match_memory ?g (d_entityName x))) deletions) = []"
      using that by (rule concat_match_none)
    have "q_deleteObservations deletions ?g = (?g, ())"
      unfolding q_deleteObservations_def rows by simp
    then show ?thesis
      using session_run_ok[OF assms(2), of "q_deleteObservations deletions"]
      by (simp add: deleteObservations_def)
  qed
  have fourth: "deleteObservations deletions d =
           deleteObservations (filter (\<lambda>x. entity_exists ?g (d_entityName x)) deletions) d"
  proof -
    have eq: "q_deleteObservations deletions ?g =
          q_deleteObservations (filter (\<lambda>x. entity_exists ?g (d_entityName x)) deletions) ?g"
      unfolding q_deleteObservations_def
      using concat_match_filter[of "\<lambda>x i. (i, d_observations x)" ?g d_entityName deletions]
      by simp
    show ?thesis
      by (simp only: deleteObservations_def session_run_def eq)
  qed
  show ?thesis using first second third fourth by blast
qed

theorem delete_missing_noop_witness:
  "deleteEntities [''ghost''] \<lparr>graph = ex_graph [], faults = []\<rparr> =
     (Inr (), \<lparr>graph = ex_graph [], faults = []\<rparr>) \<and>
   deleteObservations [\<lparr>d_entityName = ''ghost'', d_observations = [''x'']\<rparr>] \<lparr>graph = ex_graph [], faults = []\<rparr> =
     (Inr (), \<lparr>graph = ex_graph [], faults = []\<rparr>) \<and>
   deleteEntities [''Bob'', ''ghost'']
     \<lparr>graph = ex_graph [\<lparr>startNode = 1, etype = ''${relationType}'', endNode = 2\<rparr>,
                         \<lparr>startNode = 1, etype = ''${relationType}'', endNode = 3\<rparr>], faults = []\<rparr> =
     (Inr (), \<lparr>graph = \<lparr>nodes = [memory_node 1 ''Alice'' [''x''], memory_node 3 ''Carol'' []],
                          edges = [\<lparr>startNode = 1, etype = ''${relationType}'', endNode = 3\<rparr>]\<rparr>,
               faults = []\<rparr>)"
proof -
  let ?d = "\<lparr>graph = ex_graph [], faults = []\<rparr>"
  let ?d2 = "\<lparr>graph = ex_graph [\<lparr>startNode = 1, etype = ''${relationType}'', endNode = 2\<rparr>,
                         \<lparr>startNode = 1, etype = ''${relationType}'', endNode = 3\<rparr>], faults = []\<rparr>"
  let ?ds = "[\<lparr>d_entityName = ''ghost'', d_observations = [''x'']\<rparr>]"
  have wf: "wf_graph (graph ?d)" and wf2: "wf_graph (graph ?d2)" by code_simp+
  have ok: "next_ok ?d" and ok2: "next_ok ?d2" by (simp_all add: next_ok_def)
  have a: "\<forall>nm \<in> set [''ghost'']. \<not> entity_exists (graph ?d) nm" by code_simp
  have b: "\<forall>x \<in> set ?ds. \<not> entity_exists (graph ?d) (d_entityName x)" by code_simp
  have t: "\<lparr>graph = graph ?d, faults = tl (faults ?d)\<rparr> = ?d" by simp
  have e: "\<lparr>graph =
               \<lparr>nodes = filter (\<lambda>n. \<not> (\<exists>nm \<in> set [''Bob'', ''ghost'']. is_memory nm n)) (nodes (graph ?d2)),
                edges = filter (\<lambda>e. startNode e \<notin> set (concat (map (match_memory (graph ?d2)) [''Bob'', ''ghost''])) \<and>
                                     endNode e \<notin> set (concat (map (match_memory (graph ?d2)) [''Bob'', ''ghost''])))
                          (edges (graph ?d2))\<rparr>,
             faults = tl (faults ?d2)\<rparr> =
           \<lparr>graph = \<lparr>nodes = [memory_node 1 ''Alice'' [''x''], memory_node 3 ''Carol'' []],
                          edges = [\<lparr>startNode = 1, etype = ''${relationType}'', endNode = 3\<rparr>]\<rparr>,
               faults = []\<rparr>"
    by code_simp
  note t1 = delete_missing_noop[OF wf ok, of "[''ghost'']" ?ds]
  note t2 = delete_missing_noop[OF wf2 ok2, of "[''Bob'', ''ghost'']" "[]"]
  have x: "deleteEntities [''ghost''] ?d = (Inr (), \<lparr>graph = graph ?d, faults = tl (faults ?d)\<rparr>)"
    by (rule t1[THEN conjunct2, THEN conjunct1, THEN mp, OF a])
  have y: "deleteObservations ?ds ?d = (Inr (), \<lparr>graph = graph ?d, faults = tl (faults ?d)\<rparr>)"
    by (rule t1[THEN conjunct2, THEN conjunct2, THEN conjunct1, THEN mp, OF b])
  have z: "deleteEntities [''Bob'', ''ghost''] ?d2 =
     (Inr (), \<lparr>graph = \<lparr>nodes = [memory_node 1 ''Alice'' [''x''], memory_node 3 ''Carol'' []],
                          edges = [\<lparr>startNode = 1, etype = ''${relationType}'', endNode = 3\<rparr>]\<rparr>,
               faults = []\<rparr>)"
    using t2[THEN conjunct1] by (simp only: e)
  show ?thesis
    using x y z by (simp only: t simp_thms)
qed

subsection \<open>Adding observations\<close>

lemma appended_Nil: "appended [] = (\<lambda>n. n)"
  by (rule ext) (simp add: appended_def)

lemma appended_Cons:
  "appended (row # rows) n =
   appended rows (if node_id n = fst row then n\<lparr>n_observations := Some (coalesce (n_observations n) @ snd (snd row))\<rparr> else n)"
proof (cases "node_id n = fst row")
  case True
  show ?thesis
  proof (cases "fst row \<in> fst ` set rows")
    case True
    with \<open>node_id n = fst row\<close> show ?thesis by (simp add: appended_def)
  next
    case False
    then have "\<forall>r \<in> set rows. fst r \<noteq> fst row"
      by (metis image_eqI)
    then have "filter (\<lambda>r. fst r = fst row) rows = []"
      by (simp add: filter_empty_conv)
    with False \<open>node_id n = fst row\<close> show ?thesis by (simp add: appended_def)
  qed
next
  case False
  then show ?thesis by (simp add: appended_def)
qed

lemma fold_set_added:
  "fold set_added rows g = g\<lparr>nodes := map (appended rows) (nodes g)\<rparr>"
proof (induction rows arbitrary: g)
  case Nil
  then show ?case by (simp add: appended_Nil)
next
  case (Cons row rows)
  have "fold set_added (row # rows) g = fold set_added rows (set_added row g)" by simp
  also have "\<dots> = (set_added row g)\<lparr>nodes := map (appended rows) (nodes (set_added row g))\<rparr>"
    by (rule Cons.IH)
  also have "\<dots> = g\<lparr>nodes := map (appended (row # rows)) (nodes g)\<rparr>"
    by (simp add: set_added_def upd_node_def appended_Cons cong: if_cong)
  finally show ?case .
qed

lemma filter_same_id:
  "distinct (map node_id ns) \<Longrightarrow> n \<in> set ns \<Longrightarrow>
   filter (\<lambda>e. node_id e = node_id n) (filter P ns) = (if P n then [n] else [])"
proof (induction ns)
  case Nil
  then show ?case by simp
next
  case (Cons m ns)
  show ?case
  proof (cases "m = n")
    case True
    have "node_id n \<notin> node_id ` set ns"
      using Cons.prems True by simp
    then have "\<forall>e \<in> set ns. node_id e \<noteq> node_id n"
      by (metis image_eqI)
    then have "filter (\<lambda>e. node_id e = node_id n) (filter P ns) = []"
      by (simp add: filter_empty_conv)
    then show ?thesis using True by simp
  next
    case False
    then have "node_id m \<noteq> node_id n" using Cons.prems by force
    then show ?thesis using Cons False by auto
  qed
qed

lemma rows_of_node:
  assumes "wf_graph g" and "n \<in> set (nodes g)"
  shows "filter (\<lambda>row. fst row = node_id n) (add_rows os g) =
         map (\<lambda>obs. (node_id n, entityName obs,
                      filter (\<lambda>x. x \<notin> set (coalesce (n_observations n))) (contents obs)))
             (filter (\<lambda>obs. is_memory (entityName obs) n) os)"
proof (induction os)
  case Nil
  then show ?case by (simp add: add_rows_def)
next
  case (Cons obs os)
  let ?new = "\<lambda>e. (node_id e, entityName obs,
                   filter (\<lambda>x. x \<notin> set (coalesce (n_observations e))) (contents obs))"
  have "filter (\<lambda>row. fst row = node_id n) (map ?new (filter (is_memory (entityName obs)) (nodes g)))
        = map ?new (filter (\<lambda>e. node_id e = node_id n) (filter (is_memory (entityName obs)) (nodes g)))"
    by (simp add: filter_map comp_def)
  also have "\<dots> = (if is_memory (entityName obs) n then [?new n] else [])"
    using filter_same_id[of "nodes g" n "is_memory (entityName obs)"] assms
    by (simp add: wf_graph_def)
  finally show ?case
    using Cons.IH by (simp add: add_rows_def)
qed

lemma node_in_rows:
  assumes "n \<in> set (nodes g)" and "wf_graph g"
  shows "node_id n \<in> fst ` set (add_rows os g) \<longleftrightarrow> (\<exists>obs \<in> set os. is_memory (entityName obs) n)"
proof -
  have "node_id n \<in> fst ` set (add_rows os g) \<longleftrightarrow> filter (\<lambda>row. fst row = node_id n) (add_rows os g) \<noteq> []"
    by (force simp: filter_empty_conv)
  also have "\<dots> \<longleftrightarrow> (\<exists>obs \<in> set os. is_memory (entityName obs) n)"
    by (simp add: rows_of_node[OF assms(2) assms(1)] filter_empty_conv)
  finally show ?thesis .
qed

text \<open>
  C6. With the round-trip not rejected, \<^verbatim>\<open>addObservations\<close> returns one record for each
  pair and each entity the pair names, with the name and the elements of \<open>contents\<close> that are
  not among the observations of the entity, in their order; it appends exactly these to the
  observations of the entity and changes no other node and no edge. A pair that names no
  entity gives no record and no error; when no pair names an entity the result is empty and
  the graph unchanged. The observations an element is compared with are those the entity had
  when the call started.
\<close>

theorem addObservations_appends_new:
  assumes "wf_graph (graph d)" and "next_ok d"
  shows "fst (addObservations os d) =
           Inr (concat (map (\<lambda>obs. map (\<lambda>e. \<lparr>r_entityName = entityName obs,
                    addedObservations = filter (\<lambda>x. x \<notin> set (coalesce (n_observations e))) (contents obs)\<rparr>)
                  (filter (is_memory (entityName obs)) (nodes (graph d)))) os)) \<and>
         nodes (graph (snd (addObservations os d))) =
           map (\<lambda>n. if \<exists>obs \<in> set os. is_memory (entityName obs) n
                     then n\<lparr>n_observations := Some (coalesce (n_observations n) @
                            concat (map (\<lambda>obs. filter (\<lambda>x. x \<notin> set (coalesce (n_observations n))) (contents obs))
                                       (filter (\<lambda>obs. is_memory (entityName obs) n) os)))\<rparr>
                     else n) (nodes (graph d)) \<and>
         edges (graph (snd (addObservations os d))) = edges (graph d) \<and>
         ((\<forall>obs \<in> set os. \<not> entity_exists (graph d) (entityName obs)) \<longrightarrow>
            addObservations os d = (Inr [], \<lparr>graph = graph d, faults = tl (faults d)\<rparr>))"
proof -
  let ?g = "graph d"
  have run: "addObservations os d =
      (Inr (map (\<lambda>record. \<lparr>r_entityName = fst record, addedObservations = snd record\<rparr>) (map snd (add_rows os ?g))),
       \<lparr>graph = ?g\<lparr>nodes := map (appended (add_rows os ?g)) (nodes ?g)\<rparr>, faults = tl (faults d)\<rparr>)"
    using session_run_ok[OF assms(2), of "q_addObservations os"]
    by (simp add: addObservations_def q_addObservations_def fold_set_added)
  have res: "map (\<lambda>record. \<lparr>r_entityName = fst record, addedObservations = snd record\<rparr>) (map snd (add_rows os ?g)) =
      concat (map (\<lambda>obs. map (\<lambda>e. \<lparr>r_entityName = entityName obs,
                    addedObservations = filter (\<lambda>x. x \<notin> set (coalesce (n_observations e))) (contents obs)\<rparr>)
                  (filter (is_memory (entityName obs)) (nodes ?g))) os)"
    by (simp add: add_rows_def map_concat comp_def)
  have nd: "map (appended (add_rows os ?g)) (nodes ?g) =
      map (\<lambda>n. if \<exists>obs \<in> set os. is_memory (entityName obs) n
                     then n\<lparr>n_observations := Some (coalesce (n_observations n) @
                            concat (map (\<lambda>obs. filter (\<lambda>x. x \<notin> set (coalesce (n_observations n))) (contents obs))
                                       (filter (\<lambda>obs. is_memory (entityName obs) n) os)))\<rparr>
                     else n) (nodes ?g)"
  proof (rule map_cong[OF refl])
    fix n assume n: "n \<in> set (nodes ?g)"
    show "appended (add_rows os ?g) n =
       (if \<exists>obs \<in> set os. is_memory (entityName obs) n
                     then n\<lparr>n_observations := Some (coalesce (n_observations n) @
                            concat (map (\<lambda>obs. filter (\<lambda>x. x \<notin> set (coalesce (n_observations n))) (contents obs))
                                       (filter (\<lambda>obs. is_memory (entityName obs) n) os)))\<rparr>
                     else n)"
      unfolding appended_def node_in_rows[OF n assms(1)] rows_of_node[OF assms(1) n]
      by (simp add: comp_def)
  qed
  have none: "addObservations os d = (Inr [], \<lparr>graph = ?g, faults = tl (faults d)\<rparr>)"
    if "\<forall>obs \<in> set os. \<not> entity_exists ?g (entityName obs)"
  proof -
    have "add_rows os ?g = []"
      using that by (induction os) (auto simp: add_rows_def entity_exists_def filter_empty_conv)
    then show ?thesis unfolding run by (simp add: appended_Nil)
  qed
  have a: "fst (addObservations os d) =
           Inr (concat (map (\<lambda>obs. map (\<lambda>e. \<lparr>r_entityName = entityName obs,
                    addedObservations = filter (\<lambda>x. x \<notin> set (coalesce (n_observations e))) (contents obs)\<rparr>)
                  (filter (is_memory (entityName obs)) (nodes ?g))) os))"
    by (simp only: run fst_conv res)
  have b: "nodes (graph (snd (addObservations os d))) =
           map (\<lambda>n. if \<exists>obs \<in> set os. is_memory (entityName obs) n
                     then n\<lparr>n_observations := Some (coalesce (n_observations n) @
                            concat (map (\<lambda>obs. filter (\<lambda>x. x \<notin> set (coalesce (n_observations n))) (contents obs))
                                       (filter (\<lambda>obs. is_memory (entityName obs) n) os)))\<rparr>
                     else n) (nodes ?g)"
    by (simp add: run nd)
  have c: "edges (graph (snd (addObservations os d))) = edges ?g"
    by (simp add: run)
  show ?thesis
    using a b c none by blast
qed

theorem addObservations_appends_new_witness:
  "fst (addObservations [\<lparr>entityName = ''Alice'', contents = [''x'', ''x'', ''y'']\<rparr>,
                         \<lparr>entityName = ''ghost'', contents = [''z'']\<rparr>]
          \<lparr>graph = ex_graph [], faults = []\<rparr>) =
     Inr [\<lparr>r_entityName = ''Alice'', addedObservations = [''y'']\<rparr>] \<and>
   nodes (graph (snd (addObservations [\<lparr>entityName = ''Alice'', contents = [''x'', ''x'', ''y'']\<rparr>,
                         \<lparr>entityName = ''ghost'', contents = [''z'']\<rparr>]
          \<lparr>graph = ex_graph [], faults = []\<rparr>))) =
     [memory_node 1 ''Alice'' [''x'', ''y''], memory_node 2 ''Bob'' [], memory_node 3 ''Carol'' []]"
proof -
  let ?d = "\<lparr>graph = ex_graph [], faults = []\<rparr>"
  let ?os = "[\<lparr>entityName = ''Alice'', contents = [''x'', ''x'', ''y'']\<rparr>,
              \<lparr>entityName = ''ghost'', contents = [''z'']\<rparr>]"
  have wf: "wf_graph (graph ?d)" by code_simp
  have ok: "next_ok ?d" by (simp add: next_ok_def)
  have r: "concat (map (\<lambda>obs. map (\<lambda>e. \<lparr>r_entityName = entityName obs,
                    addedObservations = filter (\<lambda>x. x \<notin> set (coalesce (n_observations e))) (contents obs)\<rparr>)
                  (filter (is_memory (entityName obs)) (nodes (graph ?d)))) ?os) =
           [\<lparr>r_entityName = ''Alice'', addedObservations = [''y'']\<rparr>]"
    by code_simp
  have n: "map (\<lambda>n. if \<exists>obs \<in> set ?os. is_memory (entityName obs) n
                     then n\<lparr>n_observations := Some (coalesce (n_observations n) @
                            concat (map (\<lambda>obs. filter (\<lambda>x. x \<notin> set (coalesce (n_observations n))) (contents obs))
                                       (filter (\<lambda>obs. is_memory (entityName obs) n) ?os)))\<rparr>
                     else n) (nodes (graph ?d)) =
           [memory_node 1 ''Alice'' [''x'', ''y''], memory_node 2 ''Bob'' [], memory_node 3 ''Carol'' []]"
    by code_simp
  note t = addObservations_appends_new[OF wf ok, of ?os]
  show ?thesis
    using t[THEN conjunct1] t[THEN conjunct2, THEN conjunct1] by (simp only: r n simp_thms)
qed

subsection \<open>What the queries keep\<close>

lemma max_id_ge: "n \<in> set ns \<Longrightarrow> node_id n \<le> max_id ns"
  by (induction ns) auto

lemma wf_merge_entity: "wf_graph g \<Longrightarrow> wf_graph (merge_entity e g)"
proof -
  assume wf: "wf_graph g"
  have "Suc (max_id (nodes g)) \<notin> node_id ` set (nodes g)"
    using max_id_ge by fastforce
  then show ?thesis using wf by (simp add: merge_entity_def wf_graph_def)
qed

lemma map_node_id: "(\<And>n. node_id (F n) = node_id n) \<Longrightarrow> map (node_id \<circ> F) ns = map node_id ns"
  by (induction ns) auto

lemma wf_set_entity_row: "wf_graph g \<Longrightarrow> wf_graph (set_entity_row e g)"
proof -
  have eq: "map (node_id \<circ> (\<lambda>n. if is_memory (name e) n then set_entity e n else n)) (nodes g) = map node_id (nodes g)"
    by (rule map_node_id) (simp add: set_entity_def)
  show "wf_graph g \<Longrightarrow> wf_graph (set_entity_row e g)"
    unfolding wf_graph_def set_entity_row_def by (simp add: eq)
qed

lemma wf_fold_merge: "wf_graph g \<Longrightarrow> wf_graph (fold merge_entity es g)"
  by (induction es arbitrary: g) (auto simp: wf_merge_entity)

lemma wf_fold_set: "wf_graph g \<Longrightarrow> wf_graph (fold set_entity_row es g)"
  by (induction es arbitrary: g) (auto simp: wf_set_entity_row)

lemma od_merge_entity: "obs_distinct g \<Longrightarrow> obs_distinct (merge_entity e g)"
  by (auto simp: obs_distinct_def merge_entity_def)

lemma od_fold_merge: "obs_distinct g \<Longrightarrow> obs_distinct (fold merge_entity es g)"
  by (induction es arbitrary: g) (auto simp: od_merge_entity)

lemma wf_upd_node: "(\<And>n. node_id (f n) = node_id n) \<Longrightarrow> wf_graph g \<Longrightarrow> wf_graph (upd_node i f g)"
proof -
  assume f: "\<And>n. node_id (f n) = node_id n"
  have eq: "map (node_id \<circ> (\<lambda>n. if node_id n = i then f n else n)) (nodes g) = map node_id (nodes g)"
    by (rule map_node_id) (simp add: f)
  show "wf_graph g \<Longrightarrow> wf_graph (upd_node i f g)"
    unfolding wf_graph_def upd_node_def by (simp add: eq)
qed

lemma wf_fold_set_removed: "wf_graph g \<Longrightarrow> wf_graph (fold set_removed rows g)"
  by (induction rows arbitrary: g) (auto simp: set_removed_def wf_upd_node)

lemma od_set_removed: "obs_distinct g \<Longrightarrow> obs_distinct (set_removed row g)"
  by (auto simp: obs_distinct_def set_removed_def upd_node_def)

lemma od_fold_set_removed: "obs_distinct g \<Longrightarrow> obs_distinct (fold set_removed rows g)"
  by (induction rows arbitrary: g) (auto simp: od_set_removed)

subsection \<open>The label and the edge type written by the queries\<close>

lemma fold_set_entity_row:
  "fold set_entity_row es g = g\<lparr>nodes := map (fold set_step es) (nodes g)\<rparr>"
proof (induction es arbitrary: g)
  case Nil
  then show ?case by (simp add: map_idI)
next
  case (Cons e es)
  have "set_entity_row e g = g\<lparr>nodes := map (set_step e) (nodes g)\<rparr>"
    by (simp add: set_entity_row_def set_step_def)
  then show ?case by (simp add: Cons.IH comp_def)
qed

lemma set_add_label: "set (add_label l ls) = insert l (set ls)"
  by (auto simp: add_label_def)

lemma add_label_idem: "add_label l (add_label l ls) = add_label l ls"
  by (simp add: add_label_def)

lemma is_memory_set_step: "is_memory nm (set_step e n) = is_memory nm n"
  by (auto simp: set_step_def is_memory_def set_entity_def set_add_label)

lemma is_memory_fold_set_step: "is_memory nm (fold set_step es n) = is_memory nm n"
  by (induction es arbitrary: n) (auto simp: is_memory_set_step)

lemma entity_exists_fold_set:
  "entity_exists (fold set_entity_row es g) nm = entity_exists g nm"
  by (simp add: fold_set_entity_row entity_exists_def is_memory_fold_set_step)

lemma entity_exists_merge_mono: "entity_exists g nm \<Longrightarrow> entity_exists (merge_entity e g) nm"
  by (auto simp: merge_entity_def entity_exists_def)

lemma entity_exists_merge_self: "entity_exists (merge_entity e g) (name e)"
  by (auto simp: merge_entity_def entity_exists_def is_memory_def)

lemma entity_exists_fold_merge_mono: "entity_exists g nm \<Longrightarrow> entity_exists (fold merge_entity es g) nm"
  by (induction es arbitrary: g) (auto simp: entity_exists_merge_mono)

lemma entity_exists_fold_merge: "e \<in> set es \<Longrightarrow> entity_exists (fold merge_entity es g) (name e)"
  by (induction es arbitrary: g)
     (auto simp: entity_exists_merge_self entity_exists_fold_merge_mono)

lemma fold_merge_entity_noop:
  "\<forall>e \<in> set es. entity_exists g (name e) \<Longrightarrow> fold merge_entity es g = g"
  by (induction es) (auto simp: merge_entity_def)

lemma set_entity_absorb: "set_entity e (set_entity e' m) = set_entity e m"
  by (simp add: set_entity_def add_label_idem)

lemma set_entity_absorb_step: "set_entity e (set_step e' m) = set_entity e m"
  by (simp add: set_step_def set_entity_absorb)

lemma set_entity_absorb_fold: "set_entity e (fold set_step es m) = set_entity e m"
proof (induction es arbitrary: m)
  case Nil
  then show ?case by simp
next
  case (Cons e' es)
  then show ?case by (simp add: set_entity_absorb_step)
qed

lemma fold_set_step_idem: "fold set_step es (fold set_step es n) = fold set_step es n"
proof (induction es arbitrary: n rule: rev_induct)
  case Nil
  then show ?case by simp
next
  case (snoc e es)
  let ?m = "fold set_step es n"
  show ?case
  proof (cases "is_memory (name e) n")
    case False
    then have "\<And>k. is_memory (name e) k = is_memory (name e) n \<Longrightarrow> set_step e k = k"
      by (simp add: set_step_def)
    then show ?thesis
      using snoc.IH[of n] by (simp add: is_memory_fold_set_step)
  next
    case True
    then have st: "\<And>k. is_memory (name e) k \<Longrightarrow> set_step e k = set_entity e k"
      by (simp add: set_step_def)
    have m: "is_memory (name e) ?m" using True by (simp add: is_memory_fold_set_step)
    have m2: "is_memory (name e) (fold set_step es (set_entity e ?m))"
      using m st[OF m] is_memory_set_step[of "name e" e ?m] by (simp add: is_memory_fold_set_step)
    have "fold set_step (es @ [e]) (fold set_step (es @ [e]) n) =
          set_step e (fold set_step es (set_entity e ?m))"
      using st[OF m] by simp
    also have "\<dots> = set_entity e (fold set_step es (set_entity e ?m))"
      using st[OF m2] .
    also have "\<dots> = set_entity e ?m"
      by (simp add: set_entity_absorb_fold set_entity_absorb)
    also have "\<dots> = fold set_step (es @ [e]) n"
      using st[OF m] by simp
    finally show ?thesis .
  qed
qed

lemma q_createEntities_idem:
  "q_createEntities es (fst (q_createEntities es g)) = q_createEntities es g"
proof -
  let ?g1 = "fold merge_entity es g"
  let ?g2 = "fold set_entity_row es ?g1"
  have "\<forall>e \<in> set es. entity_exists ?g2 (name e)"
    by (simp add: entity_exists_fold_set entity_exists_fold_merge)
  then have "fold merge_entity es ?g2 = ?g2"
    by (rule fold_merge_entity_noop)
  moreover have "fold set_entity_row es ?g2 = ?g2"
    by (simp add: fold_set_entity_row fold_set_step_idem comp_def)
  ultimately show ?thesis
    by (simp add: q_createEntities_def)
qed

text \<open>
  Apart from the label, \<^verbatim>\<open>createEntities\<close> is what it is said to be: it returns its
  input, and a second call with the same input leaves the graph of the first call as it is.
\<close>

lemma createEntities_twice:
  assumes "next_ok d" and "next_ok (snd (createEntities es d))"
  shows "fst (createEntities es d) = Inr es \<and>
         fst (createEntities es (snd (createEntities es d))) = Inr es \<and>
         graph (snd (createEntities es (snd (createEntities es d)))) = graph (snd (createEntities es d))"
proof -
  have one: "createEntities es d = (Inr es, \<lparr>graph = fst (q_createEntities es (graph d)), faults = tl (faults d)\<rparr>)"
    using session_run_ok[OF assms(1), of "q_createEntities es"] by (simp add: createEntities_def)
  let ?d' = "snd (createEntities es d)"
  have two: "createEntities es ?d' = (Inr es, \<lparr>graph = fst (q_createEntities es (graph ?d')), faults = tl (faults ?d')\<rparr>)"
    using session_run_ok[OF assms(2), of "q_createEntities es"] by (simp add: createEntities_def)
  show ?thesis
    using q_createEntities_idem[of es "graph d"] by (simp add: two) (simp add: one)
qed

text \<open>
  C5. The evaluation of \<^verbatim>\<open>createEntities\<close> on an empty store and the entity \<open>Alice\<close> of
  type \<open>Person\<close>: the node created carries, besides \<open>Memory\<close>, the label
  \<^verbatim>\<open>${entity.type}\<close>, the text of the escaped substitution, and not the label \<open>Person\<close>.
\<close>

theorem createEntities_literal_label:
  "createEntities [alice] empty_db =
     (Inr [alice],
      \<lparr>graph = \<lparr>nodes = [\<lparr>node_id = 1, labels = [''Memory'', ''${entity.type}''], n_name = Some ''Alice'',
                           n_type = Some ''Person'', n_observations = Some [''likes tea'']\<rparr>],
                 edges = []\<rparr>,
       faults = []\<rparr>)"
  by code_simp

lemma loadGraph_ok:
  "next_ok d \<Longrightarrow> \<exists>kg. fst (loadGraph ft q d) = Inr kg"
  using session_run_ok[of d "q_loadGraph ft q"]
  by (simp add: loadGraph_def q_loadGraph_def Let_def)

lemma to_relation_type:
  "r \<in> set (to_relation (rel_of g x)) \<Longrightarrow> \<exists>e. x = Some e \<and> relationType r = etype e"
  by (cases x) (auto simp: to_relation_def rel_of_def split: option.splits if_splits)

lemma optional_match_edges: "Some e \<in> set (optional_match g n) \<Longrightarrow> e \<in> set (edges g)"
  by (auto simp: optional_match_def Let_def split: if_splits)

lemma loadGraph_relationType:
  assumes "fst (loadGraph ft q d) = Inr kg" and "r \<in> set (relations kg)"
  shows "relationType r \<in> etype ` set (edges (graph d))"
proof -
  let ?g = "graph d"
  let ?rows = "concat (map (\<lambda>entity. map (\<lambda>r. (entity, r)) (optional_match ?g entity))
                   (filter (\<lambda>n. ''Memory'' \<in> set (labels n) \<and> ft q n) (nodes ?g)))"
  have run: "session_run (q_loadGraph ft q) d = (Inl Neo4jError, snd (session_run (q_loadGraph ft q) d)) \<or>
             fst (session_run (q_loadGraph ft q) d) = Inr (snd (q_loadGraph ft q ?g))"
    by (auto simp: session_run_def split: list.splits prod.splits)
  have "relations kg = concat (map to_relation (collect_distinct (map (\<lambda>row. rel_of ?g (snd row)) ?rows)))"
    using assms(1) run
    by (auto simp: loadGraph_def q_loadGraph_def Let_def split: prod.splits sum.splits)
  then have "set (relations kg) =
      (\<Union>row \<in> set ?rows. set (to_relation (rel_of ?g (snd row))))"
    by (simp add: collect_distinct_def)
  then obtain row where row: "row \<in> set ?rows" and r: "r \<in> set (to_relation (rel_of ?g (snd row)))"
    using assms(2) by blast
  obtain e where e: "snd row = Some e" and ty: "relationType r = etype e"
    using to_relation_type[OF r] by blast
  obtain n where "snd row \<in> set (optional_match ?g n)"
    using row by auto
  then have "e \<in> set (edges ?g)"
    using e optional_match_edges by simp
  then show ?thesis using ty by simp
qed

text \<open>
  Whatever the full-text index selects: after the relation \<open>knows\<close> was created between
  the two entities, twice, the graph read back does not hold it.
\<close>

lemma readGraph_without_knows:
  "\<exists>kg. fst (readGraph fulltext (snd (createRelations [knows] (snd (createRelations [knows]
            (snd (createEntities [alice, bob] empty_db))))))) = Inr kg \<and>
        knows \<notin> set (relations kg)"
proof -
  let ?d = "snd (createRelations [knows] (snd (createRelations [knows]
            (snd (createEntities [alice, bob] empty_db)))))"
  have ok: "next_ok ?d" by code_simp
  have es: "edges (graph ?d) = [\<lparr>startNode = 1, etype = ''${relationType}'', endNode = 2\<rparr>]"
    by code_simp
  obtain kg where kg: "fst (readGraph fulltext ?d) = Inr kg"
    using loadGraph_ok[OF ok] unfolding readGraph_def by blast
  have "relationType r = ''${relationType}''" if "r \<in> set (relations kg)" for r
    using loadGraph_relationType[OF kg[unfolded readGraph_def] that] by (simp add: es)
  moreover have "relationType knows \<noteq> ''${relationType}''"
    by (simp add: knows_def)
  ultimately have "knows \<notin> set (relations kg)" by blast
  then show ?thesis using kg by blast
qed

text \<open>
  C1. The evaluation of the example of the specification: two entities, the relation
  \<open>knows\<close> between them created twice, then \<^verbatim>\<open>readGraph\<close>. The graph read holds one
  relation between the two, of type \<^verbatim>\<open>${relationType}\<close>, and none of type \<open>knows\<close>; and
  two relations that differ in their type only are stored as one edge.
\<close>

theorem createRelations_readGraph_literal_type:
  "fst (readGraph match_all (snd (createRelations [knows] (snd (createRelations [knows]
          (snd (createEntities [alice, bob] empty_db))))))) =
     Inr \<lparr>entities = [\<lparr>l_name = ''Alice'', l_type = Some ''Person'', l_observations = [''likes tea'']\<rparr>,
                       \<lparr>l_name = ''Bob'', l_type = Some ''Person'', l_observations = []\<rparr>],
          relations = [\<lparr>source = ''Alice'', target = ''Bob'', relationType = ''${relationType}''\<rparr>]\<rparr> \<and>
   edges (graph (snd (createRelations [knows, likes] (snd (createEntities [alice, bob] empty_db))))) =
     [\<lparr>startNode = 1, etype = ''${relationType}'', endNode = 2\<rparr>]"
  by code_simp

subsection \<open>Duplicate observations\<close>

lemma session_run_graph:
  "graph (snd (session_run q d)) = (if next_ok d then fst (q (graph d)) else graph d)"
  by (auto simp: session_run_def next_ok_def split: list.splits prod.splits)

lemma fold_set_step_last:
  "fold set_step es n =
     (if filter (\<lambda>e. is_memory (name e) n) es = [] then n
      else set_entity (last (filter (\<lambda>e. is_memory (name e) n) es)) n)"
proof (induction es rule: rev_induct)
  case Nil
  then show ?case by simp
next
  case (snoc e es)
  have m: "is_memory (name e) (fold set_step es n) = is_memory (name e) n"
    by (rule is_memory_fold_set_step)
  show ?case
  proof (cases "is_memory (name e) n")
    case True
    then have "fold set_step (es @ [e]) n = set_entity e (fold set_step es n)"
      using m by (simp add: set_step_def)
    also have "\<dots> = set_entity e n" by (rule set_entity_absorb_fold)
    finally show ?thesis using True by simp
  next
    case False
    then have "fold set_step (es @ [e]) n = fold set_step es n"
      using m by (simp add: set_step_def)
    then show ?thesis using False snoc.IH by simp
  qed
qed

lemma filter_is_memory:
  "is_memory nm n \<Longrightarrow> filter (\<lambda>e. is_memory (name e) n) es = filter (\<lambda>e. name e = nm) es"
  by (rule filter_cong) (auto simp: is_memory_def)

lemma q_createEntities_iff:
  assumes od: "obs_distinct g"
  shows "obs_distinct (fst (q_createEntities es g)) \<longleftrightarrow> create_distinct es"
proof
  let ?g1 = "fold merge_entity es g"
  have nodes': "nodes (fst (q_createEntities es g)) = map (fold set_step es) (nodes ?g1)"
    by (simp add: q_createEntities_def fold_set_entity_row)
  have od1: "obs_distinct ?g1" using od by (rule od_fold_merge)
  {
    assume cd: "create_distinct es"
    have "distinct (coalesce (n_observations (fold set_step es n)))" if n: "n \<in> set (nodes ?g1)" for n
    proof (cases "filter (\<lambda>e. is_memory (name e) n) es = []")
      case True
      then show ?thesis using od1 n by (simp add: fold_set_step_last obs_distinct_def)
    next
      case False
      let ?ms = "filter (\<lambda>e. is_memory (name e) n) es"
      have "last ?ms \<in> set ?ms" using False by (rule last_in_set)
      then have l: "last ?ms \<in> set es" and mem: "is_memory (name (last ?ms)) n" by auto
      have "?ms = filter (\<lambda>e'. name e' = name (last ?ms)) es"
        using mem by (rule filter_is_memory)
      then have "distinct (observations (last ?ms))"
        using cd l unfolding create_distinct_def by metis
      then show ?thesis using False by (simp add: fold_set_step_last set_entity_def)
    qed
    then show "obs_distinct (fst (q_createEntities es g))"
      by (simp add: obs_distinct_def nodes')
  }
  {
    assume od': "obs_distinct (fst (q_createEntities es g))"
    have "distinct (observations (last (filter (\<lambda>e'. name e' = name e) es)))" if e: "e \<in> set es" for e
    proof -
      obtain n where n: "n \<in> set (nodes ?g1)" and mem: "is_memory (name e) n"
        using entity_exists_fold_merge[OF e, of g] by (auto simp: entity_exists_def)
      let ?ms = "filter (\<lambda>e'. name e' = name e) es"
      have ms: "filter (\<lambda>e'. is_memory (name e') n) es = ?ms"
        using mem by (rule filter_is_memory)
      have ne: "?ms \<noteq> []" using e by (auto simp: filter_empty_conv)
      have "fold set_step es n \<in> set (nodes (fst (q_createEntities es g)))"
        using n by (simp add: nodes')
      then have "distinct (coalesce (n_observations (fold set_step es n)))"
        using od' by (simp add: obs_distinct_def)
      then show ?thesis
        using ne by (simp add: fold_set_step_last ms set_entity_def)
    qed
    then show "create_distinct es" by (simp add: create_distinct_def)
  }
qed

lemma appended_obs:
  assumes "wf_graph g" and "n \<in> set (nodes g)"
  shows "coalesce (n_observations (appended (add_rows os g) n)) =
         coalesce (n_observations n) @ new_for os n"
proof (cases "\<exists>obs \<in> set os. is_memory (entityName obs) n")
  case True
  then show ?thesis
    using node_in_rows[OF assms(2) assms(1), of os] rows_of_node[OF assms, of os]
    by (simp add: appended_def new_for_def comp_def)
next
  case False
  then have "filter (\<lambda>obs. is_memory (entityName obs) n) os = []"
    by (simp add: filter_empty_conv)
  then show ?thesis
    using False node_in_rows[OF assms(2) assms(1), of os]
    by (simp add: appended_def new_for_def)
qed

lemma new_for_disjoint: "x \<in> set (new_for os n) \<Longrightarrow> x \<notin> set (coalesce (n_observations n))"
  by (auto simp: new_for_def)

lemma nodes_q_addObservations:
  "nodes (fst (q_addObservations os g)) = map (appended (add_rows os g)) (nodes g)"
  by (simp add: q_addObservations_def fold_set_added)

lemma q_addObservations_iff:
  assumes wf: "wf_graph g" and od: "obs_distinct g"
  shows "obs_distinct (fst (q_addObservations os g)) \<longleftrightarrow> new_distinct os g"
proof -
  have "distinct (coalesce (n_observations (appended (add_rows os g) n))) \<longleftrightarrow> distinct (new_for os n)"
    if n: "n \<in> set (nodes g)" for n
  proof -
    have "distinct (coalesce (n_observations n))" using od n by (simp add: obs_distinct_def)
    then show ?thesis
      using new_for_disjoint[of _ os n] by (auto simp: appended_obs[OF wf n])
  qed
  then show ?thesis
    by (simp add: obs_distinct_def new_distinct_def nodes_q_addObservations)
qed

lemma q_addObservations_only_new:
  assumes wf: "wf_graph g"
  shows "only_appends_new g (fst (q_addObservations os g))"
proof -
  have "list_all2 (\<lambda>n n'. take (length (coalesce (n_observations n))) (coalesce (n_observations n')) =
                          coalesce (n_observations n) \<and>
                        (\<forall>x \<in> set (drop (length (coalesce (n_observations n))) (coalesce (n_observations n'))).
                            x \<notin> set (coalesce (n_observations n))))
       (nodes g) (map (appended (add_rows os g)) (nodes g))"
    unfolding list_all2_map2
    by (rule list_all2_same[THEN iffD2]) (simp add: appended_obs[OF wf] new_for_disjoint)
  then show ?thesis
    by (simp add: only_appends_new_def nodes_q_addObservations)
qed

lemma only_appends_new_refl: "only_appends_new g g"
  by (simp add: only_appends_new_def list_all2_same)

lemma wf_q_createEntities: "wf_graph g \<Longrightarrow> wf_graph (fst (q_createEntities es g))"
  by (simp add: q_createEntities_def wf_fold_merge wf_fold_set)

lemma wf_q_addObservations: "wf_graph g \<Longrightarrow> wf_graph (fst (q_addObservations os g))"
proof -
  have ids: "map (node_id \<circ> appended (add_rows os g)) (nodes g) = map node_id (nodes g)"
    by (rule map_node_id) (simp add: appended_def)
  show "wf_graph g \<Longrightarrow> wf_graph (fst (q_addObservations os g))"
    unfolding wf_graph_def nodes_q_addObservations by (simp add: ids)
qed

lemma graph_createEntities: "graph (snd (createEntities es d)) = graph (snd (session_run (q_createEntities es) d))"
  by (simp add: createEntities_def split: prod.splits sum.splits)

lemma graph_addObservations: "graph (snd (addObservations os d)) = graph (snd (session_run (q_addObservations os) d))"
  by (simp add: addObservations_def split: prod.splits sum.splits)

lemma wf_apply_op: "wf_graph (graph d) \<Longrightarrow> wf_graph (graph (apply_op x d))"
proof (cases x)
  case (CreateEntities es)
  then show "wf_graph (graph d) \<Longrightarrow> ?thesis"
    by (simp add: graph_createEntities session_run_graph wf_q_createEntities)
next
  case (AddObservations os)
  then show "wf_graph (graph d) \<Longrightarrow> ?thesis"
    by (simp add: graph_addObservations session_run_graph wf_q_addObservations)
next
  case (DeleteObservations ds)
  then show "wf_graph (graph d) \<Longrightarrow> ?thesis"
    by (simp add: deleteObservations_def session_run_graph q_deleteObservations_def wf_fold_set_removed)
qed

lemma apply_op_iff:
  assumes wf: "wf_graph (graph d)" and od: "obs_distinct (graph d)"
  shows "obs_distinct (graph (apply_op x d)) \<longleftrightarrow> op_ok x d"
proof (cases x)
  case (CreateEntities es)
  then show ?thesis
    using od q_createEntities_iff[OF od, of es]
    by (simp add: graph_createEntities session_run_graph)
next
  case (AddObservations os)
  then show ?thesis
    using od q_addObservations_iff[OF wf od, of os]
    by (simp add: graph_addObservations session_run_graph)
next
  case (DeleteObservations ds)
  then show ?thesis
    using od by (simp add: deleteObservations_def session_run_graph q_deleteObservations_def od_fold_set_removed)
qed

lemma always_distinct_first: "always_distinct ops d \<Longrightarrow> obs_distinct (graph d)"
  by (cases ops) auto

lemma always_distinct_last: "always_distinct ops d \<Longrightarrow> obs_distinct (graph (fold apply_op ops d))"
  by (induction ops arbitrary: d) auto

lemma always_distinct_iff:
  "wf_graph (graph d) \<Longrightarrow> obs_distinct (graph d) \<Longrightarrow> always_distinct ops d \<longleftrightarrow> run_ok ops d"
proof (induction ops arbitrary: d)
  case Nil
  then show ?case by simp
next
  case (Cons x xs)
  have wf': "wf_graph (graph (apply_op x d))" using Cons.prems(1) by (rule wf_apply_op)
  have step: "obs_distinct (graph (apply_op x d)) \<longleftrightarrow> op_ok x d"
    using Cons.prems by (rule apply_op_iff)
  show ?case
  proof
    assume a: "always_distinct (x # xs) d"
    then have "always_distinct xs (apply_op x d)" by simp
    then have od': "obs_distinct (graph (apply_op x d))"
      by (rule always_distinct_first)
    then show "run_ok (x # xs) d"
      using a step Cons.IH[OF wf' od'] by simp
  next
    assume r: "run_ok (x # xs) d"
    then have od': "obs_distinct (graph (apply_op x d))" using step by simp
    then show "always_distinct (x # xs) d"
      using r Cons.prems(2) Cons.IH[OF wf' od'] by simp
  qed
qed

text \<open>
  C2, as the claim states it, fails. \<^verbatim>\<open>addObservations\<close> filters \<open>contents\<close> against the
  observations the entity has, not against \<open>contents\<close> itself: adding \<open>y, y\<close> to an entity
  that holds \<open>x\<close> leaves it with \<open>x, y, y\<close>, and so do two pairs of one call that both add
  \<open>y\<close> to it. \<^verbatim>\<open>createEntities\<close> stores the observations it is given as they are,
  duplicates included.
\<close>

theorem observations_duplicates_counterexample:
  "\<not> obs_distinct (graph (fold apply_op
       [CreateEntities [\<lparr>name = ''A'', type = ''T'', observations = [''x'']\<rparr>],
        AddObservations [\<lparr>entityName = ''A'', contents = [''y'', ''y'']\<rparr>]] empty_db)) \<and>
   nodes (graph (fold apply_op
       [CreateEntities [\<lparr>name = ''A'', type = ''T'', observations = [''x'']\<rparr>],
        AddObservations [\<lparr>entityName = ''A'', contents = [''y'', ''y'']\<rparr>]] empty_db)) =
     [\<lparr>node_id = 1, labels = [''Memory'', ''${entity.type}''], n_name = Some ''A'', n_type = Some ''T'',
       n_observations = Some [''x'', ''y'', ''y'']\<rparr>] \<and>
   \<not> obs_distinct (graph (fold apply_op
       [CreateEntities [\<lparr>name = ''A'', type = ''T'', observations = [''x'']\<rparr>],
        AddObservations [\<lparr>entityName = ''A'', contents = [''y'']\<rparr>,
                         \<lparr>entityName = ''A'', contents = [''y'']\<rparr>]] empty_db)) \<and>
   nodes (graph (fold apply_op
       [CreateEntities [\<lparr>name = ''A'', type = ''T'', observations = [''x'']\<rparr>],
        AddObservations [\<lparr>entityName = ''A'', contents = [''y'']\<rparr>,
                         \<lparr>entityName = ''A'', contents = [''y'']\<rparr>]] empty_db)) =
     [\<lparr>node_id = 1, labels = [''Memory'', ''${entity.type}''], n_name = Some ''A'', n_type = Some ''T'',
       n_observations = Some [''x'', ''y'', ''y'']\<rparr>] \<and>
   \<not> obs_distinct (graph (fold apply_op
       [CreateEntities [\<lparr>name = ''A'', type = ''T'', observations = [''x'', ''x'']\<rparr>]] empty_db))"
  by code_simp

text \<open>
  C2, amended. Start from a store in which no entity holds an observation twice, and take
  any sequence of \<^verbatim>\<open>createEntities\<close>, \<^verbatim>\<open>addObservations\<close> and \<^verbatim>\<open>deleteObservations\<close>,
  with round-trips rejected or not. Then no state the sequence passes through holds a
  duplicate exactly when every call that is carried out writes none: the observations of
  the last entity of each name of a \<^verbatim>\<open>createEntities\<close> batch are free of duplicates, and for
  each entity the strings an \<^verbatim>\<open>addObservations\<close> call adds to it (the elements of the
  \<open>contents\<close> of the pairs naming it that it does not hold when the call starts) are
  pairwise distinct; \<^verbatim>\<open>deleteObservations\<close> never introduces one. In particular the last
  state is then free of duplicates. And for every input, \<^verbatim>\<open>addObservations\<close> only appends,
  and never a string the entity held when the call started.
\<close>

theorem observations_distinct_iff:
  assumes "wf_graph (graph d)" and "obs_distinct (graph d)"
  shows "(always_distinct ops d \<longleftrightarrow> run_ok ops d) \<and>
         (run_ok ops d \<longrightarrow> obs_distinct (graph (fold apply_op ops d))) \<and>
         only_appends_new (graph d) (graph (snd (addObservations os d)))"
proof -
  have a: "always_distinct ops d \<longleftrightarrow> run_ok ops d"
    using assms by (rule always_distinct_iff)
  have b: "obs_distinct (graph (fold apply_op ops d))" if "run_ok ops d"
    using that a always_distinct_last by blast
  have c: "only_appends_new (graph d) (graph (snd (addObservations os d)))"
    using q_addObservations_only_new[OF assms(1), of os] only_appends_new_refl[of "graph d"]
    by (simp add: graph_addObservations session_run_graph)
  show ?thesis using a b c by blast
qed

text \<open>
  The example of the specification, \<open>x, x, y\<close> added to an entity that holds \<open>x\<close>, then an
  entity named by two pairs of one call, then a deletion: no duplicate at any point.
\<close>

theorem observations_distinct_iff_witness:
  "always_distinct
       [CreateEntities [\<lparr>name = ''A'', type = ''T'', observations = [''x'']\<rparr>],
        AddObservations [\<lparr>entityName = ''A'', contents = [''x'', ''x'', ''y'']\<rparr>],
        AddObservations [\<lparr>entityName = ''A'', contents = [''p'']\<rparr>,
                         \<lparr>entityName = ''A'', contents = [''q'']\<rparr>],
        DeleteObservations [\<lparr>d_entityName = ''A'', d_observations = [''x'']\<rparr>]] empty_db \<and>
   obs_distinct (graph (fold apply_op
       [CreateEntities [\<lparr>name = ''A'', type = ''T'', observations = [''x'']\<rparr>],
        AddObservations [\<lparr>entityName = ''A'', contents = [''x'', ''x'', ''y'']\<rparr>],
        AddObservations [\<lparr>entityName = ''A'', contents = [''p'']\<rparr>,
                         \<lparr>entityName = ''A'', contents = [''q'']\<rparr>],
        DeleteObservations [\<lparr>d_entityName = ''A'', d_observations = [''x'']\<rparr>]] empty_db)) \<and>
   only_appends_new (graph \<lparr>graph = ex_graph [], faults = []\<rparr>)
     (graph (snd (addObservations [\<lparr>entityName = ''Alice'', contents = [''x'', ''y'', ''y'']\<rparr>]
                    \<lparr>graph = ex_graph [], faults = []\<rparr>)))"
proof -
  let ?ops = "[CreateEntities [\<lparr>name = ''A'', type = ''T'', observations = [''x'']\<rparr>],
        AddObservations [\<lparr>entityName = ''A'', contents = [''x'', ''x'', ''y'']\<rparr>],
        AddObservations [\<lparr>entityName = ''A'', contents = [''p'']\<rparr>,
                         \<lparr>entityName = ''A'', contents = [''q'']\<rparr>],
        DeleteObservations [\<lparr>d_entityName = ''A'', d_observations = [''x'']\<rparr>]]"
  let ?d = "\<lparr>graph = ex_graph [], faults = []\<rparr>"
  let ?os = "[\<lparr>entityName = ''Alice'', contents = [''x'', ''y'', ''y'']\<rparr>]"
  have wf: "wf_graph (graph empty_db)" and od: "obs_distinct (graph empty_db)" by code_simp+
  have wf2: "wf_graph (graph ?d)" and od2: "obs_distinct (graph ?d)" by code_simp+
  have ok: "run_ok ?ops empty_db" by code_simp
  note t = observations_distinct_iff[OF wf od, of ?ops "[]"]
  note t2 = observations_distinct_iff[OF wf2 od2, of "[]" ?os]
  have a: "always_distinct ?ops empty_db"
    using t[THEN conjunct1] ok by (rule iffD2)
  have b: "obs_distinct (graph (fold apply_op ?ops empty_db))"
    using t[THEN conjunct2, THEN conjunct1] ok by (rule mp)
  have c: "only_appends_new (graph ?d) (graph (snd (addObservations ?os ?d)))"
    by (rule t2[THEN conjunct2, THEN conjunct2])
  show ?thesis using a b c by (intro conjI)
qed

end
